theory Spec2Isabelle
  imports Main
begin

section \<open>Scope of the embedding\<close>

text \<open>
  The theory embeds the tag codec (\<^verbatim>\<open>src/xml.ts\<close>), the streaming field extractor of
  \<^verbatim>\<open>callLLM\<close> (\<^verbatim>\<open>src/inference.ts\<close>), the array check, the two selection steps, the
  reconciliation step and the tail of \<^verbatim>\<open>Agent.run\<close> (\<^verbatim>\<open>src/agent.ts\<close>) and
  \<^verbatim>\<open>fetchWithPayment\<close> (\<^verbatim>\<open>src/payments.ts\<close>).

  \<^item> A JavaScript string is a list of code units; the embedding covers the code units
    below 256 (\<^typ>\<open>char\<close>). White space is what \<^verbatim>\<open>String.prototype.trim\<close> and the
    regular expression class \<^verbatim>\<open>\s\<close> take in that range.
  \<^item> An object is the association list of its own enumerable properties in insertion
    order. Property reads see own properties only: members inherited from the built-in
    prototypes (\<^verbatim>\<open>constructor\<close>, \<^verbatim>\<open>toString\<close>, ...) are outside the embedding, and
    the theorems about round trips exclude those names.
  \<^item> A number is a non-negative decimal, kept exactly as its integer part and its
    fraction digits without trailing zeros. JavaScript agrees with that on the decimals
    a double prints back unchanged (at most 15 significant digits, below \<open>10\<^sup>2\<^sup>1\<close>).
  \<^item> Asynchronous calls are sequential here (every call is awaited before the next one),
    so a promise is the outcome it settles to: \<open>Inl\<close> a thrown error, \<open>Inr\<close> a value.
\<close>

section \<open>Strings\<close>

definition is_ws :: "char \<Rightarrow> bool" where
  "is_ws c = (c \<in> {CHR 0x09, CHR 0x0A, CHR 0x0B, CHR 0x0C, CHR 0x0D, CHR '' '', CHR 0xA0})"

definition is_digit :: "char \<Rightarrow> bool" where
  "is_digit c = (48 \<le> (of_char c :: nat) \<and> (of_char c :: nat) \<le> 57)"

definition is_letter :: "char \<Rightarrow> bool" where
  "is_letter c = ((65 \<le> (of_char c :: nat) \<and> (of_char c :: nat) \<le> 90) \<or>
                  (97 \<le> (of_char c :: nat) \<and> (of_char c :: nat) \<le> 122))"

definition is_word_char :: "char \<Rightarrow> bool" where
  "is_word_char c = (is_letter c \<or> is_digit c \<or> c = CHR ''_'')"

text \<open>\<^verbatim>\<open>s.trim()\<close>\<close>

definition trim :: "string \<Rightarrow> string" where
  "trim s = rev (dropWhile is_ws (rev (dropWhile is_ws s)))"

text \<open>\<^verbatim>\<open>s.includes("<")\<close>\<close>

definition includes_lt :: "string \<Rightarrow> bool" where
  "includes_lt s = (CHR ''<'' \<in> set s)"

text \<open>\<^verbatim>\<open>s.startsWith(p)\<close>\<close>

definition starts_with :: "string \<Rightarrow> string \<Rightarrow> bool" where
  "starts_with p s = (take (length p) s = p)"

text \<open>
  The text before and after the leftmost occurrence of a non-empty pattern: what a lazy
  \<^verbatim>\<open>(.*?)\<close> (or \<^verbatim>\<open>([\s\S]*?)\<close>) followed by a literal captures, and where the match ends.
\<close>

fun split_at :: "string \<Rightarrow> string \<Rightarrow> (string \<times> string) option" where
  "split_at p [] = (if p = [] then Some ([], []) else None)"
| "split_at p (c # cs) =
     (if starts_with p (c # cs) then Some ([], drop (length p) (c # cs))
      else map_option (\<lambda>(a, b). (c # a, b)) (split_at p cs))"

definition occurs :: "string \<Rightarrow> string \<Rightarrow> bool" where
  "occurs p s = (split_at p s \<noteq> None)"

section \<open>Values\<close>

text \<open>
  \<open>VNum n fp\<close> is the number with integer part \<open>n\<close> and fraction digits \<open>fp\<close>
  (\<open>VNum 1 ''5''\<close> is 1.5, \<open>VNum 42 []\<close> is 42).
\<close>

datatype jsvalue =
    VUndefined
  | VNull
  | VBool bool
  | VNum nat string
  | VStr string
  | VArr "jsvalue list"
  | VObj "(string \<times> jsvalue) list"

definition digit_char :: "nat \<Rightarrow> char" where
  "digit_char d = ''0123456789'' ! d"

fun show_nat :: "nat \<Rightarrow> string" where
  "show_nat n = (if n < 10 then [digit_char n] else show_nat (n div 10) @ [digit_char (n mod 10)])"

declare show_nat.simps [simp del]

definition nat_of_digits :: "string \<Rightarrow> nat" where
  "nat_of_digits ds = foldl (\<lambda>a c. 10 * a + (of_char c - 48)) 0 ds"

definition show_num :: "nat \<Rightarrow> string \<Rightarrow> string" where
  "show_num n fp = show_nat n @ (if fp = [] then [] else CHR ''.'' # fp)"

definition join :: "string \<Rightarrow> string list \<Rightarrow> string" where
  "join sep xs = (case xs of [] \<Rightarrow> [] | y # ys \<Rightarrow> y @ concat (map (\<lambda>z. sep @ z) ys))"

text \<open>
  \<^verbatim>\<open>String(x)\<close>. The codec calls it on scalars, \<^verbatim>\<open>undefined\<close> and \<^verbatim>\<open>null\<close> only; the
  two structured cases are JavaScript's, for completeness.
\<close>

fun js_String :: "jsvalue \<Rightarrow> string" where
  "js_String VUndefined = ''undefined''"
| "js_String VNull = ''null''"
| "js_String (VBool b) = (if b then ''true'' else ''false'')"
| "js_String (VNum n fp) = show_num n fp"
| "js_String (VStr s) = s"
| "js_String (VArr xs) =
     join '','' (map (\<lambda>x. if x = VUndefined \<or> x = VNull then [] else js_String x) xs)"
| "js_String (VObj es) = ''[object Object]''"

text \<open>\<^verbatim>\<open>typeof x === "object"\<close>: objects, arrays and \<^verbatim>\<open>null\<close>.\<close>

fun is_object :: "jsvalue \<Rightarrow> bool" where
  "is_object VNull = True"
| "is_object (VArr xs) = True"
| "is_object (VObj es) = True"
| "is_object v = False"

section \<open>The codec: \<^verbatim>\<open>objToXml\<close>\<close>

text \<open>
  \<^verbatim>\<open>name.replace(/[^a-zA-Z0-9_]/g, "_").replace(/^[^a-zA-Z]/, "tag_$&")\<close>
\<close>

definition sanitizeTagName :: "string \<Rightarrow> string" where
  "sanitizeTagName name =
     (let s = map (\<lambda>c. if is_word_char c then c else CHR ''_'') name
      in case s of [] \<Rightarrow> [] | c # cs \<Rightarrow> if is_letter c then s else ''tag_'' @ s)"

definition wrapTag :: "string \<Rightarrow> string \<Rightarrow> string" where
  "wrapTag tag content =
     (let safeTag = sanitizeTagName tag
      in ''<'' @ safeTag @ ''>'' @ content @ ''</'' @ safeTag @ ''>'')"

text \<open>\<^verbatim>\<open>parentKey || d\<close>: an absent and an empty parent key are both falsy.\<close>

fun key_or :: "string option \<Rightarrow> string \<Rightarrow> string" where
  "key_or None d = d"
| "key_or (Some k) d = (if k = [] then d else k)"

definition kept_entry :: "string \<times> jsvalue \<Rightarrow> bool" where
  "kept_entry e = (snd e \<noteq> VUndefined \<and> snd e \<noteq> VNull)"

fun objToXml :: "jsvalue \<Rightarrow> string option \<Rightarrow> string" where
  "objToXml (VArr xs) parentKey =
     wrapTag (key_or parentKey ''array'')
       (concat (map (\<lambda>item. wrapTag ''item''
          (if is_object item then objToXml item None else js_String item)) xs))"
| "objToXml (VObj es) parentKey =
     (let entries = filter kept_entry es
      in if entries = [] then wrapTag (key_or parentKey ''empty'') []
         else
           let content = concat (map (\<lambda>e.
                 if is_object (snd e) then objToXml (snd e) (Some (fst e))
                 else ''<'' @ fst e @ ''>'' @ js_String (snd e) @ ''</'' @ fst e @ ''>'') entries)
           in if key_or parentKey [] \<noteq> [] then wrapTag (key_or parentKey []) content else content)"
| "objToXml v parentKey = wrapTag (key_or parentKey ''value'') (js_String v)"

section \<open>The codec: \<^verbatim>\<open>xmlToObj\<close>\<close>

subsection \<open>The tag pattern\<close>

text \<open>
  \<^verbatim>\<open>/<([^>\s/]+)(?:[^>]*)>(.*?)<\/\1>/gs\<close>, as a backtracking matcher runs it.
  At a \<^verbatim>\<open><\<close> the name group is greedy: it first takes the whole run of characters that
  are not \<^verbatim>\<open>>\<close>, white space or \<^verbatim>\<open>/\<close>, and gives characters back one by one when the
  rest fails. \<^verbatim>\<open>[^>]*\<close> then runs to the first \<^verbatim>\<open>>\<close> (giving back cannot help: the
  next token must be \<^verbatim>\<open>>\<close>). The lazy body stops at the leftmost \<^verbatim>\<open></name>\<close>.
\<close>

definition name_char :: "char \<Rightarrow> bool" where
  "name_char c = (c \<noteq> CHR ''>'' \<and> \<not> is_ws c \<and> c \<noteq> CHR ''/'')"

definition close_tag :: "string \<Rightarrow> string" where
  "close_tag name = ''</'' @ name @ ''>''"

text \<open>
  \<open>try_names run n body\<close>: the name group holds the first \<open>n\<close> characters of the run,
  then \<open>n - 1\<close>, ... until a closing tag of that name is found in \<open>body\<close>, the text after
  the first \<^verbatim>\<open>>\<close>. The result is the name, the captured body and the text after the match.
\<close>

fun try_names :: "string \<Rightarrow> nat \<Rightarrow> string \<Rightarrow> (string \<times> string \<times> string) option" where
  "try_names run 0 body = None"
| "try_names run (Suc n) body =
     (case split_at (close_tag (take (Suc n) run)) body of
        Some (inner, rest) \<Rightarrow> Some (take (Suc n) run, inner, rest)
      | None \<Rightarrow> try_names run n body)"

text \<open>A match that starts at the first character.\<close>

fun match_at :: "string \<Rightarrow> (string \<times> string \<times> string) option" where
  "match_at [] = None"
| "match_at (c # r) =
     (if c \<noteq> CHR ''<'' then None
      else
        let run = takeWhile name_char r;
            tail = dropWhile (\<lambda>x. x \<noteq> CHR ''>'') r
        in if run = [] \<or> tail = [] then None
           else try_names run (length run) (tl tail))"

text \<open>
  \<^verbatim>\<open>tagRegex.exec(content)\<close> from \<^verbatim>\<open>lastIndex\<close> on: the argument is the text from
  \<^verbatim>\<open>lastIndex\<close>, the result the leftmost match and the text from the new \<^verbatim>\<open>lastIndex\<close>.
\<close>

fun regex_exec :: "string \<Rightarrow> (string \<times> string \<times> string) option" where
  "regex_exec [] = None"
| "regex_exec (c # cs) =
     (case match_at (c # cs) of Some m \<Rightarrow> Some m | None \<Rightarrow> regex_exec cs)"

subsection \<open>Leaves\<close>

text \<open>\<^verbatim>\<open>/^\d+(\.\d+)?$/.test(s)\<close>\<close>

definition is_numeric_literal :: "string \<Rightarrow> bool" where
  "is_numeric_literal s =
     (let ip = takeWhile is_digit s; r = dropWhile is_digit s
      in ip \<noteq> [] \<and> (r = [] \<or> (hd r = CHR ''.'' \<and> tl r \<noteq> [] \<and> list_all is_digit (tl r))))"

text \<open>\<^verbatim>\<open>Number(s)\<close> on a string that passed the test.\<close>

definition js_Number :: "string \<Rightarrow> jsvalue" where
  "js_Number s =
     VNum (nat_of_digits (takeWhile is_digit s))
          (rev (dropWhile (\<lambda>c. c = CHR ''0'') (rev (drop 1 (dropWhile is_digit s)))))"

definition leaf_value :: "string \<Rightarrow> jsvalue" where
  "leaf_value trimmedContent =
     (if trimmedContent = ''true'' \<or> trimmedContent = ''false'' then VBool (trimmedContent = ''true'')
      else if is_numeric_literal trimmedContent then js_Number trimmedContent
      else VStr trimmedContent)"

subsection \<open>Accumulating repeated tags\<close>

fun set_prop :: "string \<Rightarrow> jsvalue \<Rightarrow> (string \<times> jsvalue) list \<Rightarrow> (string \<times> jsvalue) list" where
  "set_prop k v [] = [(k, v)]"
| "set_prop k v (e # es) = (if fst e = k then (k, v) # es else e # set_prop k v es)"

definition accumulate :: "(string \<times> jsvalue) list \<Rightarrow> string \<Rightarrow> jsvalue \<Rightarrow> (string \<times> jsvalue) list" where
  "accumulate result tagName child =
     (case map_of result tagName of
        None \<Rightarrow> set_prop tagName child result
      | Some (VArr xs) \<Rightarrow> set_prop tagName (VArr (xs @ [child])) result
      | Some v \<Rightarrow> set_prop tagName (VArr [v, child]) result)"

subsection \<open>\<^verbatim>\<open>parseElement\<close>\<close>

lemma split_at_length:
  "split_at p s = Some (a, b) \<Longrightarrow> length a + length p + length b = length s"
proof (induction s arbitrary: a b)
  case Nil
  then show ?case by (simp split: if_splits)
next
  case (Cons c cs)
  show ?case
  proof (cases "starts_with p (c # cs)")
    case True
    with Cons.prems have "a = []" "b = drop (length p) (c # cs)" by simp_all
    moreover from True have "take (length p) (c # cs) = p"
      unfolding starts_with_def .
    then have "length (take (length p) (c # cs)) = length p" by simp
    then have "length p \<le> length (c # cs)" by simp
    ultimately show ?thesis by simp
  next
    case False
    with Cons.prems obtain a' where s: "split_at p cs = Some (a', b)" and a: "a = c # a'"
      by (auto split: prod.splits)
    from Cons.IH [OF s] a show ?thesis by simp
  qed
qed

lemma try_names_length:
  "try_names run n body = Some (name, inner, rest) \<Longrightarrow> length inner + length rest < length body"
proof (induction n)
  case 0
  then show ?case by simp
next
  case (Suc n)
  show ?case
  proof (cases "split_at (close_tag (take (Suc n) run)) body")
    case None
    with Suc show ?thesis by simp
  next
    case (Some ab)
    obtain a b where ab: "ab = (a, b)" by (cases ab)
    with Some Suc.prems have eq: "inner = a" "rest = b" by simp_all
    from split_at_length [OF Some [unfolded ab]]
    have len: "length a + length (close_tag (take (Suc n) run)) + length b = length body" .
    have pos: "0 < length (close_tag (take (Suc n) run))" by (simp add: close_tag_def)
    from len pos show ?thesis unfolding eq by linarith
  qed
qed

lemma match_at_length:
  "match_at s = Some (name, inner, rest) \<Longrightarrow> length inner + length rest < length s"
proof (cases s)
  case Nil
  then show "match_at s = Some (name, inner, rest) \<Longrightarrow> ?thesis" by simp
next
  case (Cons c r)
  assume m: "match_at s = Some (name, inner, rest)"
  let ?tail = "dropWhile (\<lambda>x. x \<noteq> CHR ''>'') r"
  from m Cons have t: "try_names (takeWhile name_char r) (length (takeWhile name_char r)) (tl ?tail)
      = Some (name, inner, rest)"
    by (simp add: Let_def split: if_splits)
  have "length ?tail \<le> length r" by (rule length_dropWhile_le)
  then have "length (tl ?tail) \<le> length r" by simp
  with try_names_length [OF t] Cons show ?thesis by simp
qed

lemma regex_exec_length:
  "regex_exec s = Some (name, inner, rest) \<Longrightarrow> length inner + length rest < length s"
proof (induction s)
  case Nil
  then show ?case by simp
next
  case (Cons c cs)
  show ?case
  proof (cases "match_at (c # cs)")
    case None
    with Cons show ?thesis by simp
  next
    case (Some m)
    with Cons.prems have "match_at (c # cs) = Some (name, inner, rest)" by simp
    from match_at_length [OF this] show ?thesis .
  qed
qed

lemma length_trim_le: "length (trim s) \<le> length s"
proof -
  have "length (trim s) \<le> length (dropWhile is_ws s)"
    unfolding trim_def by (metis length_dropWhile_le length_rev)
  also have "\<dots> \<le> length s" by (rule length_dropWhile_le)
  finally show ?thesis .
qed

text \<open>
  \<open>parse_loop\<close> is the \<^verbatim>\<open>while ((match = tagRegex.exec(content)) !== null)\<close> loop: its
  first argument is the text from \<^verbatim>\<open>lastIndex\<close>, its second the \<^verbatim>\<open>result\<close> object so far.
  \<^verbatim>\<open>hasMatches\<close> is whether the first \<^verbatim>\<open>exec\<close> succeeds.
\<close>

function parseElement :: "string \<Rightarrow> jsvalue"
  and parse_loop :: "string \<Rightarrow> (string \<times> jsvalue) list \<Rightarrow> (string \<times> jsvalue) list"
where
  "parseElement content0 =
     (let content = trim content0
      in if \<not> includes_lt content then VStr content
         else if regex_exec content = None then VStr content
         else
           let result = parse_loop content []
           in case result of
                [(key, val)] \<Rightarrow>
                  if key = ''item'' then (case val of VArr xs \<Rightarrow> VArr xs | _ \<Rightarrow> VArr [val])
                  else VObj result
              | _ \<Rightarrow> VObj result)"
| "parse_loop s result =
     (case regex_exec s of
        None \<Rightarrow> result
      | Some (tagName, tagContent, rest) \<Rightarrow>
          let child = (if includes_lt (trim tagContent) then parseElement tagContent
                       else leaf_value (trim tagContent))
          in parse_loop rest (accumulate result tagName child))"
  by pat_completeness auto

termination
proof (relation "measure (\<lambda>x. case x of Inl c \<Rightarrow> 2 * length c + 1 | Inr (s, r) \<Rightarrow> 2 * length s)")
  show "wf (measure (\<lambda>x. case x of Inl c \<Rightarrow> 2 * length c + 1 | Inr (s, r) \<Rightarrow> 2 * length s))"
    by simp
next
  fix content0 x
  assume "x = trim content0"
  then show "(Inr (x, []), Inl content0)
      \<in> measure (\<lambda>x. case x of Inl c \<Rightarrow> 2 * length c + 1 | Inr (s, r) \<Rightarrow> 2 * length s)"
    using length_trim_le [of content0] by simp
next
  fix s :: string and result :: "(string \<times> jsvalue) list" and x2 x1 x2a x1a x2b
  assume "regex_exec s = Some x2" "(x1, x2a) = x2" "(x1a, x2b) = x2a"
  then have "regex_exec s = Some (x1, x1a, x2b)" by simp
  from regex_exec_length [OF this]
  show "(Inl x1a, Inr (s, result))
      \<in> measure (\<lambda>x. case x of Inl c \<Rightarrow> 2 * length c + 1 | Inr (s, r) \<Rightarrow> 2 * length s)"
    by simp
next
  fix s :: string and result :: "(string \<times> jsvalue) list" and x2 x1 x2a x1a x2b xa
  assume "regex_exec s = Some x2" "(x1, x2a) = x2" "(x1a, x2b) = x2a"
  then have "regex_exec s = Some (x1, x1a, x2b)" by simp
  from regex_exec_length [OF this]
  show "(Inr (x2b, accumulate result x1 xa), Inr (s, result))
      \<in> measure (\<lambda>x. case x of Inl c \<Rightarrow> 2 * length c + 1 | Inr (s, r) \<Rightarrow> 2 * length s)"
    by simp
qed

declare parseElement.simps [simp del] parse_loop.simps [simp del]

definition xmlToObj :: "string \<Rightarrow> jsvalue" where
  "xmlToObj xmlContent = parseElement xmlContent"

section \<open>Errors and \<^verbatim>\<open>measure\<close>\<close>

text \<open>
  What a \<^verbatim>\<open>throw\<close> carries: \<^verbatim>\<open>new Error(message)\<close>, a \<^verbatim>\<open>TypeError\<close> of the runtime, or
  the failure of an external collaborator (network, JSON body, key decoding, schema
  validation), named by where it comes from.
\<close>

datatype error = Error string | TypeError string | ExternalFailure string

text \<open>
  Modelled from the spec: \<^verbatim>\<open>measure\<close>, imported from the package \<^verbatim>\<open>@ments/utils\<close>, whose code
  is not under \<^verbatim>\<open>src/\<close>. The spec says that errors of the final validation step "are
  swallowed to guarantee the caller always receives a result object", and the only place
  where \<^verbatim>\<open>Agent.run\<close> could swallow them is the \<^verbatim>\<open>measure\<close> around
  \<^verbatim>\<open>outputFormat.parse\<close>; the callers test what \<^verbatim>\<open>measure\<close> returns for null
  (\<^verbatim>\<open>if (!validatedInput)\<close>, \<^verbatim>\<open>validatedResponse || {}\<close>, \<^verbatim>\<open>if (!response)\<close>). So the
  library's \<^verbatim>\<open>measure\<close> runs the function and returns its result, or logs the error
  and returns null: \<open>Swallowing\<close>. Every function of the repository takes \<^verbatim>\<open>measure\<close> as
  a parameter, and its tests pass \<^verbatim>\<open>async (fn, desc) => fn(mockMeasure)\<close>, which lets the
  error through: \<open>Plain\<close>.
\<close>

datatype measure_fn = Swallowing | Plain

fun run_measure :: "measure_fn \<Rightarrow> error + 'a \<Rightarrow> error + 'a option" where
  "run_measure m (Inr v) = Inr (Some v)"
| "run_measure Swallowing (Inl e) = Inr None"
| "run_measure Plain (Inl e) = Inl e"

section \<open>\<^verbatim>\<open>fetchWithPayment\<close>\<close>

record response =
  status :: nat
  body :: string

text \<open>\<^verbatim>\<open>res.ok\<close>: the status is in the range 200-299.\<close>

definition ok :: "response \<Rightarrow> bool" where
  "ok res = (200 \<le> status res \<and> status res \<le> 299)"

record wallet =
  privateKey :: string
  rpcUrl :: "string option"

text \<open>
  The world \<^verbatim>\<open>fetchWithPayment\<close> talks to. \<open>fetches i\<close> is how the \<open>i\<close>-th call of
  \<^verbatim>\<open>fetch\<close> settles. \<open>prepare\<close> is the code between the two progress messages that runs
  outside \<^verbatim>\<open>measure\<close> and can throw (\<^verbatim>\<open>res.json()\<close>, \<^verbatim>\<open>bs58.decode\<close>,
  \<^verbatim>\<open>Keypair.fromSecretKey\<close>, \<^verbatim>\<open>new PublicKey\<close>): \<open>None\<close> when it goes through.
  \<open>send\<close> and \<open>confirm\<close> are how \<^verbatim>\<open>sendTransaction\<close> and \<^verbatim>\<open>confirmTransaction\<close> settle.
\<close>

record payment_world =
  fetches :: "nat \<Rightarrow> error + response"
  prepare :: "error option"
  send :: "error + string"
  confirm :: "error + unit"

datatype event = HttpAttempt | SendTransaction | ConfirmTransaction

definition maxRetries :: nat where
  "maxRetries = 1"

text \<open>
  The payment of one iteration: the events it adds, and the error it throws if any.
\<close>

definition pay :: "payment_world \<Rightarrow> measure_fn \<Rightarrow> error option \<times> event list" where
  "pay w m =
     (case prepare w of
        Some e \<Rightarrow> (Some e, [])
      | None \<Rightarrow>
          (case run_measure m (send w) of
             Inl e \<Rightarrow> (Some e, [SendTransaction])
           | Inr signature \<Rightarrow>
               (case run_measure m (confirm w) of
                  Inl e \<Rightarrow> (Some e, [SendTransaction, ConfirmTransaction])
                | Inr u \<Rightarrow> (None, [SendTransaction, ConfirmTransaction]))))"

text \<open>\<^verbatim>\<open>new Error(`Request failed: ${res.status} - ${errorText}`)\<close>\<close>

definition request_failed :: "response \<Rightarrow> error" where
  "request_failed res = Error (''Request failed: '' @ show_nat (status res) @ '' - '' @ body res)"

text \<open>
  The \<^verbatim>\<open>while (true)\<close> loop, with \<^verbatim>\<open>retries\<close> and the events so far as its state. The
  \<open>retries\<close>-th iteration makes the \<open>retries\<close>-th call of \<^verbatim>\<open>fetch\<close>. When \<^verbatim>\<open>measure\<close>
  swallowed a failure of \<^verbatim>\<open>fetch\<close>, \<^verbatim>\<open>res\<close> is null and \<^verbatim>\<open>res.ok\<close> throws.
\<close>

function fetch_loop ::
  "payment_world \<Rightarrow> measure_fn \<Rightarrow> wallet option \<Rightarrow> nat \<Rightarrow> event list
     \<Rightarrow> (error + response) \<times> event list"
where
  "fetch_loop w m solanaWallet retries evs =
     (case run_measure m (fetches w retries) of
        Inl e \<Rightarrow> (Inl e, evs @ [HttpAttempt])
      | Inr None \<Rightarrow> (Inl (TypeError ''null is not an object (evaluating res.ok)''), evs @ [HttpAttempt])
      | Inr (Some res) \<Rightarrow>
          if ok res then (Inr res, evs @ [HttpAttempt])
          else if status res \<noteq> 402 \<or> retries \<ge> maxRetries \<or> solanaWallet = None
          then (Inl (request_failed res), evs @ [HttpAttempt])
          else
            (case pay w m of
               (Some e, pevs) \<Rightarrow> (Inl e, evs @ [HttpAttempt] @ pevs)
             | (None, pevs) \<Rightarrow>
                 fetch_loop w m solanaWallet (retries + 1) (evs @ [HttpAttempt] @ pevs)))"
  by pat_completeness auto

termination
  by (relation "measure (\<lambda>(w, m, sw, retries, evs). maxRetries - retries)") auto

declare fetch_loop.simps [simp del]

definition fetchWithPayment ::
  "payment_world \<Rightarrow> measure_fn \<Rightarrow> wallet option \<Rightarrow> (error + response) \<times> event list" where
  "fetchWithPayment w m solanaWallet = fetch_loop w m solanaWallet 0 []"

text \<open>
  Two worlds for the examples below: a paywall that opens after the payment, and a
  paywall met with a wallet whose key does not decode.
\<close>

definition paywall_then_ok :: payment_world where
  "paywall_then_ok = \<lparr>fetches = (\<lambda>i. if i = 0 then Inr \<lparr>status = 402, body = ''pay''\<rparr>
                                          else Inr \<lparr>status = 200, body = ''ok''\<rparr>),
      prepare = None, send = Inr ''signature'', confirm = Inr ()\<rparr>"

definition bad_key_world :: payment_world where
  "bad_key_world = \<lparr>fetches = (\<lambda>i. Inr \<lparr>status = 402, body = ''pay''\<rparr>),
      prepare = Some (ExternalFailure ''bad secret key size''), send = Inr ''signature'', confirm = Inr ()\<rparr>"

section \<open>Output shapes and the array check\<close>

text \<open>
  A Zod schema, by the kinds the code tells apart through \<^verbatim>\<open>_def.typeName\<close>. Any other
  kind is \<open>ZodOther\<close> with its type name; the code never looks inside one, and neither
  does the model.
\<close>

datatype zschema =
    ZodString
  | ZodNumber
  | ZodBoolean
  | ZodEnum "string list"
  | ZodOptional zschema
  | ZodNullable zschema
  | ZodArray zschema
  | ZodObject "(string \<times> zschema) list"
  | ZodOther string

fun typeName :: "zschema \<Rightarrow> string" where
  "typeName ZodString = ''ZodString''"
| "typeName ZodNumber = ''ZodNumber''"
| "typeName ZodBoolean = ''ZodBoolean''"
| "typeName (ZodEnum vs) = ''ZodEnum''"
| "typeName (ZodOptional s) = ''ZodOptional''"
| "typeName (ZodNullable s) = ''ZodNullable''"
| "typeName (ZodArray s) = ''ZodArray''"
| "typeName (ZodObject shape) = ''ZodObject''"
| "typeName (ZodOther n) = n"


datatype MCPServer = MCPServer (server_name: string) (server_description: string) (server_url: string)

datatype MCPTool = MCPTool (tool_name: string) (tool_description: string) (inputSchema: jsvalue)




section \<open>Reading decoded values\<close>

text \<open>\<^verbatim>\<open>!!v\<close>\<close>

fun js_truthy :: "jsvalue \<Rightarrow> bool" where
  "js_truthy VUndefined = False"
| "js_truthy VNull = False"
| "js_truthy (VBool b) = b"
| "js_truthy (VNum n fp) = (n \<noteq> 0 \<or> fp \<noteq> [])"
| "js_truthy (VStr s) = (s \<noteq> [])"
| "js_truthy (VArr xs) = True"
| "js_truthy (VObj es) = True"

text \<open>A property name that is an array index: the decimal form of a number, nothing else.\<close>

definition array_index :: "string \<Rightarrow> nat option" where
  "array_index k =
     (if k \<noteq> [] \<and> list_all is_digit k \<and> show_nat (nat_of_digits k) = k
      then Some (nat_of_digits k) else None)"

text \<open>
  \<^verbatim>\<open>v[k]\<close> on own properties: the entries of an object, the elements and the length of an
  array or a string. A read on \<^verbatim>\<open>undefined\<close> or \<^verbatim>\<open>null\<close> throws.
\<close>

fun js_get :: "jsvalue \<Rightarrow> string \<Rightarrow> error + jsvalue" where
  "js_get VUndefined k = Inl (TypeError ''undefined is not an object'')"
| "js_get VNull k = Inl (TypeError ''null is not an object'')"
| "js_get (VObj es) k = Inr (case map_of es k of Some v \<Rightarrow> v | None \<Rightarrow> VUndefined)"
| "js_get (VArr xs) k =
     Inr (if k = ''length'' then VNum (length xs) []
          else case array_index k of
                 Some i \<Rightarrow> if i < length xs then xs ! i else VUndefined
               | None \<Rightarrow> VUndefined)"
| "js_get (VStr s) k =
     Inr (if k = ''length'' then VNum (length s) []
          else case array_index k of
                 Some i \<Rightarrow> if i < length s then VStr [s ! i] else VUndefined
               | None \<Rightarrow> VUndefined)"
| "js_get (VBool b) k = Inr VUndefined"
| "js_get (VNum n fp) k = Inr VUndefined"

text \<open>\<^verbatim>\<open>Object.keys(v)\<close>\<close>

fun Object_keys :: "jsvalue \<Rightarrow> string list" where
  "Object_keys (VObj es) = map fst es"
| "Object_keys (VArr xs) = map show_nat [0..<length xs]"
| "Object_keys (VStr s) = map show_nat [0..<length s]"
| "Object_keys v = []"

section \<open>The two selection steps\<close>

text \<open>
  \<^verbatim>\<open>parsed.outer?.inner || []\<close>, the first two statements of the \<^verbatim>\<open>try\<close> block after the
  decoding.
\<close>

definition selection_names :: "string \<Rightarrow> string \<Rightarrow> jsvalue \<Rightarrow> error + jsvalue" where
  "selection_names outer inner parsed =
     (case js_get parsed outer of
        Inl e \<Rightarrow> Inl e
      | Inr sel \<Rightarrow>
          if sel = VUndefined \<or> sel = VNull then Inr (VArr [])
          else (case js_get sel inner of
                  Inl e \<Rightarrow> Inl e
                | Inr names \<Rightarrow> Inr (if js_truthy names then names else VArr [])))"

text \<open>
  \<^verbatim>\<open>Array.isArray(names) ? names.includes(name) : names === name\<close>
\<close>

fun names_match :: "jsvalue \<Rightarrow> string \<Rightarrow> bool" where
  "names_match (VArr xs) name = (VStr name \<in> set xs)"
| "names_match v name = (v = VStr name)"

text \<open>
  \<^verbatim>\<open>selectRelevantServers\<close> and \<^verbatim>\<open>selectRelevantTools\<close>, from the value that
  \<^verbatim>\<open>await callLLM(...)\<close> produced: a text, or null (\<open>None\<close>) when \<^verbatim>\<open>measure\<close> swallowed a
  failure inside \<^verbatim>\<open>callLLM\<close>. The \<^verbatim>\<open>try\<close> block is the \<open>case\<close>: its \<open>Inl\<close> branch is the
  \<^verbatim>\<open>catch\<close>. The \<^verbatim>\<open>measure\<close> calls around the prompt and around the selected list run
  functions that cannot throw, and return what those return.
\<close>

definition selectRelevantServers :: "MCPServer list \<Rightarrow> string option \<Rightarrow> MCPServer list" where
  "selectRelevantServers configured response =
     (if configured = [] then []
      else case response of
        None \<Rightarrow> configured
      | Some r \<Rightarrow>
          if r = [] then configured
          else (case selection_names ''relevant_servers'' ''server_names'' (xmlToObj r) of
                  Inl e \<Rightarrow> configured
                | Inr serverNames \<Rightarrow>
                    filter (\<lambda>server. names_match serverNames (server_name server)) configured))"

definition selectRelevantTools :: "MCPTool list \<Rightarrow> string option \<Rightarrow> MCPTool list" where
  "selectRelevantTools tools response =
     (if tools = [] then []
      else case response of
        None \<Rightarrow> take 1 tools
      | Some r \<Rightarrow>
          if r = [] then take 1 tools
          else (case selection_names ''selected_tools'' ''tool_names'' (xmlToObj r) of
                  Inl e \<Rightarrow> take 1 tools
                | Inr toolNames \<Rightarrow>
                    filter (\<lambda>tool. names_match toolNames (tool_name tool)) tools))"

section \<open>Decoding and reconciling the final response\<close>

fun getSchemaTypeName :: "zschema \<Rightarrow> string" where
  "getSchemaTypeName (ZodOptional s) = getSchemaTypeName s"
| "getSchemaTypeName (ZodNullable s) = getSchemaTypeName s"
| "getSchemaTypeName s = typeName s"

text \<open>
  \<^verbatim>\<open>response.match(new RegExp(`<${key}>([\s\S]*?)</${key}>`, 's'))\<close> and its group 1, for a
  key that the pattern reads literally (a key of word characters has no metacharacter).
  The leftmost match starts at the first \<^verbatim>\<open><key>\<close>: if no \<^verbatim>\<open></key>\<close> follows that one,
  none follows a later one.
\<close>

definition field_regex_match :: "string \<Rightarrow> string \<Rightarrow> string option" where
  "field_regex_match key response =
     (case split_at (''<'' @ key @ ''>'') response of
        None \<Rightarrow> None
      | Some (before, after) \<Rightarrow> map_option fst (split_at (close_tag key) after))"

text \<open>
  \<^verbatim>\<open>(rootKey && typeof parsed[rootKey] === 'object' && Object.keys(parsed).length === 1)
  ? parsed[rootKey] : parsed\<close>. The decoder never yields null, so a root value of type
  object is a mapping or a sequence.
\<close>

definition source_object :: "jsvalue \<Rightarrow> error + jsvalue" where
  "source_object parsed =
     (case Object_keys parsed of
        [] \<Rightarrow> Inr parsed
      | rootKey # others \<Rightarrow>
          if rootKey = [] then Inr parsed
          else (case js_get parsed rootKey of
                  Inl e \<Rightarrow> Inl e
                | Inr root \<Rightarrow> Inr (if is_object root \<and> others = [] then root else parsed)))"

text \<open>The \<^verbatim>\<open>for\<close> loop over the declared fields, \<^verbatim>\<open>result\<close> being its state.\<close>

fun reconcile_loop ::
  "(string \<times> zschema) list \<Rightarrow> jsvalue \<Rightarrow> string \<Rightarrow> (string \<times> jsvalue) list
     \<Rightarrow> error + (string \<times> jsvalue) list" where
  "reconcile_loop [] sourceObject response result = Inr result"
| "reconcile_loop (field # rest) sourceObject response result =
     (case js_get sourceObject (fst field) of
        Inl e \<Rightarrow> Inl e
      | Inr v \<Rightarrow>
          if v \<noteq> VUndefined then
            let val =
              (if getSchemaTypeName (snd field) = ''ZodString'' \<and> is_object v \<and> v \<noteq> VNull
               then (case field_regex_match (fst field) response of Some t \<Rightarrow> VStr t | None \<Rightarrow> v)
               else v)
            in reconcile_loop rest sourceObject response (set_prop (fst field) val result)
          else reconcile_loop rest sourceObject response result)"

text \<open>\<^verbatim>\<open>generateResponse\<close> from the parsing of a non-empty response on.\<close>

definition reconcile :: "(string \<times> zschema) list \<Rightarrow> string \<Rightarrow> error + jsvalue" where
  "reconcile shape response =
     (let parsed = xmlToObj response
      in if \<not> js_truthy parsed then Inr (VObj [])
         else (case source_object parsed of
                 Inl e \<Rightarrow> Inl e
               | Inr sourceObject \<Rightarrow>
                   (case reconcile_loop shape sourceObject response [] of
                      Inl e \<Rightarrow> Inl e
                    | Inr result \<Rightarrow> Inr (VObj result))))"

text \<open>
  \<^verbatim>\<open>generateResponse\<close> from the call of the generation service on. \<open>llm\<close> is how
  \<^verbatim>\<open>callLLM(...)\<close> settles: it throws, or returns a text, or returns null when the
  \<^verbatim>\<open>measure\<close> inside it swallowed a failure.
\<close>

definition generateResponse ::
  "measure_fn \<Rightarrow> (string \<times> zschema) list \<Rightarrow> error + string option \<Rightarrow> error + jsvalue" where
  "generateResponse m shape llm =
     (case run_measure m llm of
        Inl e \<Rightarrow> Inl e
      | Inr None \<Rightarrow> Inr (VObj [])
      | Inr (Some None) \<Rightarrow> Inr (VObj [])
      | Inr (Some (Some response)) \<Rightarrow>
          if response = [] then Inr (VObj []) else reconcile shape response)"




text \<open>Configurations and responses for the examples below.\<close>

definition weather_servers :: "MCPServer list" where
  "weather_servers = [MCPServer ''weather'' ''forecasts'' ''http://w'', MCPServer ''news'' ''headlines'' ''http://n'']"

definition weather_tools :: "MCPTool list" where
  "weather_tools = [MCPTool ''forecast'' ''forecast for a city'' (VObj []), MCPTool ''alerts'' ''storm alerts'' (VObj [])]"



section \<open>The end of \<^verbatim>\<open>Agent.run\<close>\<close>

text \<open>\<^verbatim>\<open>v || {}\<close> on what \<^verbatim>\<open>measure\<close> returned.\<close>

definition or_empty :: "jsvalue option \<Rightarrow> jsvalue" where
  "or_empty r = (case r of None \<Rightarrow> VObj [] | Some v \<Rightarrow> if js_truthy v then v else VObj [])"

text \<open>
  \<^verbatim>\<open>Agent.run\<close> from the final generation on, for a run that got there: the statements
  from \<^verbatim>\<open>const response = await measure(... generateResponse ...)\<close> to
  \<^verbatim>\<open>return validatedResponse || {}\<close>, inside the outer \<^verbatim>\<open>measureFn\<close>, and then
  \<^verbatim>\<open>return result\<close> or, in the \<^verbatim>\<open>catch\<close>, \<^verbatim>\<open>throw error\<close> (\<^verbatim>\<open>sendAnalytics\<close> catches its own
  errors). \<open>parse\<close> is \<^verbatim>\<open>outputFormat.parse\<close> of the Zod library. The result is \<open>None\<close>
  when the run returns null.
\<close>

definition run_final ::
  "measure_fn \<Rightarrow> (jsvalue \<Rightarrow> error + jsvalue) \<Rightarrow> (string \<times> zschema) list \<Rightarrow> error + string option
     \<Rightarrow> error + jsvalue option" where
  "run_final m parse shape llm =
     run_measure m
       (case run_measure m (generateResponse m shape llm) of
          Inl e \<Rightarrow> Inl e
        | Inr response \<Rightarrow>
            (case run_measure m (parse (or_empty response)) of
               Inl e \<Rightarrow> Inl e
             | Inr validatedResponse \<Rightarrow> Inr (or_empty validatedResponse)))"

section \<open>The streaming extractor of \<^verbatim>\<open>callLLM\<close>\<close>

text \<open>
  The four variables that \<^verbatim>\<open>processChunk\<close> updates. A streaming update is the pair of its
  \<^verbatim>\<open>field\<close> and its \<^verbatim>\<open>value\<close> (its \<^verbatim>\<open>stage\<close> is always \<^verbatim>\<open>"streaming"\<close>).
\<close>

record stream_state =
  tagStack :: "string list"
  currentTagName :: string
  wordBuffer :: string
  insideTag :: bool

type_synonym streaming_update = "string \<times> string"

definition initial_stream :: stream_state where
  "initial_stream = \<lparr>tagStack = [], currentTagName = [], wordBuffer = [], insideTag = False\<rparr>"

text \<open>The body of \<^verbatim>\<open>for (const char of chunk)\<close>: the new state and the updates sent.\<close>

definition process_char :: "stream_state \<Rightarrow> char \<Rightarrow> stream_state \<times> streaming_update list" where
  "process_char st c =
     (if c = CHR ''<'' then
        (st\<lparr>wordBuffer := [], insideTag := True, currentTagName := []\<rparr>,
         if wordBuffer st \<noteq> [] \<and> tagStack st \<noteq> []
         then [(join ''_'' (tagStack st), wordBuffer st)] else [])
      else if c = CHR ''>'' \<and> insideTag st then
        (st\<lparr>insideTag := False,
            tagStack := (if starts_with ''/'' (currentTagName st) then butlast (tagStack st)
                         else if trim (currentTagName st) \<noteq> []
                         then tagStack st @ [trim (currentTagName st)]
                         else tagStack st),
            currentTagName := [], wordBuffer := []\<rparr>, [])
      else if insideTag st then
        (st\<lparr>currentTagName := currentTagName st @ [c]\<rparr>, [])
      else if tagStack st \<noteq> [] then
        (if c = CHR '' '' \<or> c = CHR 0x0A then
           (st\<lparr>wordBuffer := []\<rparr>,
            (if wordBuffer st \<noteq> [] then [(join ''_'' (tagStack st), wordBuffer st)] else [])
              @ [(join ''_'' (tagStack st), [c])])
         else (st\<lparr>wordBuffer := wordBuffer st @ [c]\<rparr>, []))
      else (st, []))"

fun processChunk :: "stream_state \<Rightarrow> string \<Rightarrow> stream_state \<times> streaming_update list" where
  "processChunk st [] = (st, [])"
| "processChunk st (c # cs) =
     (case process_char st c of
        (st1, us1) \<Rightarrow> (case processChunk st1 cs of (st2, us2) \<Rightarrow> (st2, us1 @ us2)))"

text \<open>The chunks of one response, in order.\<close>

fun processChunks :: "stream_state \<Rightarrow> string list \<Rightarrow> stream_state \<times> streaming_update list" where
  "processChunks st [] = (st, [])"
| "processChunks st (chunk # chunks) =
     (case processChunk st chunk of
        (st1, us1) \<Rightarrow> (case processChunks st1 chunks of (st2, us2) \<Rightarrow> (st2, us1 @ us2)))"

text \<open>The last statement of the \<^verbatim>\<open>finally\<close> block.\<close>

definition final_flush :: "stream_state \<Rightarrow> streaming_update list" where
  "final_flush st =
     (if wordBuffer st \<noteq> [] \<and> tagStack st \<noteq> []
      then [(join ''_'' (tagStack st), wordBuffer st)] else [])"

text \<open>
  The streaming branch of \<^verbatim>\<open>callLLM\<close> from the content chunks on (what \<^verbatim>\<open>parseSseLine\<close>
  returned for the lines of the stream): the text it returns and the updates it sent.
\<close>

definition callLLM_streaming :: "string list \<Rightarrow> string \<times> streaming_update list" where
  "callLLM_streaming chunks =
     (case processChunks initial_stream chunks of
        (st, us) \<Rightarrow> (concat chunks, us @ final_flush st))"

text \<open>What a consumer reads for a path: the values sent for it, in order, concatenated.\<close>

definition streamed_text :: "string \<Rightarrow> streaming_update list \<Rightarrow> string" where
  "streamed_text path us = concat (map snd (filter (\<lambda>u. fst u = path) us))"

definition char_by_char :: "string \<Rightarrow> string list" where
  "char_by_char s = map (\<lambda>c. [c]) s"

subsection \<open>Tagged text\<close>

text \<open>
  A response as the sequence of its opening tags, closing tags and stretches of text.
  A tag name has no \<^verbatim>\<open><\<close> or \<^verbatim>\<open>>\<close>, no white space at its ends, and an opening one does not
  start with \<^verbatim>\<open>/\<close>; a stretch of text has no \<^verbatim>\<open><\<close>.
\<close>

datatype token = Open string | Close string | Text string

fun render_token :: "token \<Rightarrow> string" where
  "render_token (Open n) = ''<'' @ n @ ''>''"
| "render_token (Close n) = ''</'' @ n @ ''>''"
| "render_token (Text t) = t"

definition render :: "token list \<Rightarrow> string" where
  "render ts = concat (map render_token ts)"

fun wf_token :: "token \<Rightarrow> bool" where
  "wf_token (Open n) =
     (n \<noteq> [] \<and> CHR ''<'' \<notin> set n \<and> CHR ''>'' \<notin> set n \<and> hd n \<noteq> CHR ''/'' \<and> trim n = n)"
| "wf_token (Close n) = (CHR ''<'' \<notin> set n \<and> CHR ''>'' \<notin> set n)"
| "wf_token (Text t) = (CHR ''<'' \<notin> set t)"

text \<open>The open tags after a sequence of tokens, from the open tags before it.\<close>

fun stack_after :: "string list \<Rightarrow> token list \<Rightarrow> string list" where
  "stack_after st [] = st"
| "stack_after st (Open n # ts) = stack_after (st @ [n]) ts"
| "stack_after st (Close n # ts) = stack_after (butlast st) ts"
| "stack_after st (Text t # ts) = stack_after st ts"

text \<open>The text that lies directly inside elements of a path.\<close>

fun text_at :: "string \<Rightarrow> string list \<Rightarrow> token list \<Rightarrow> string" where
  "text_at path st [] = []"
| "text_at path st (Open n # ts) = text_at path (st @ [n]) ts"
| "text_at path st (Close n # ts) = text_at path (butlast st) ts"
| "text_at path st (Text t # ts) =
     (if st \<noteq> [] \<and> join ''_'' st = path then t else []) @ text_at path st ts"

subsection \<open>The extractor between two tokens\<close>

text \<open>
  Between two tokens the extractor is outside a tag and holds buffered characters only
  under an open tag. \<open>pending path st\<close> is the buffered text that will be sent for
  \<open>path\<close>.
\<close>

definition settled :: "stream_state \<Rightarrow> bool" where
  "settled st = (\<not> insideTag st \<and> (tagStack st = [] \<longrightarrow> wordBuffer st = []))"

definition pending :: "string \<Rightarrow> stream_state \<Rightarrow> string" where
  "pending path st = (if tagStack st \<noteq> [] \<and> join ''_'' (tagStack st) = path then wordBuffer st else [])"

text \<open>A response for the examples below.\<close>

definition report_pre :: "token list" where
  "report_pre = [Open ''report'']"

definition report_post :: "token list" where
  "report_post = [Open ''status'', Text ''ok'', Close ''status'', Close ''report'']"

section \<open>Values that survive the round trip\<close>

text \<open>
  The tag names that \<^verbatim>\<open>sanitizeTagName\<close> leaves alone: a letter, then letters, digits and
  underscores. A plain key is such a name other than \<^verbatim>\<open>item\<close> (which the decoder unwraps)
  and other than the members of \<^verbatim>\<open>Object.prototype\<close> (which a fresh \<^verbatim>\<open>result\<close> object of the
  decoder inherits, so that \<^verbatim>\<open>result[tagName] === undefined\<close> is false for them).
\<close>

definition is_tag_name :: "string \<Rightarrow> bool" where
  "is_tag_name k = (k \<noteq> [] \<and> is_letter (hd k) \<and> list_all is_word_char k)"

definition Object_prototype_names :: "string list" where
  "Object_prototype_names =
     [''constructor'', ''hasOwnProperty'', ''isPrototypeOf'', ''propertyIsEnumerable'',
      ''toLocaleString'', ''toString'', ''valueOf'', ''__proto__'', ''__defineGetter__'',
      ''__defineSetter__'', ''__lookupGetter__'', ''__lookupSetter__'']"

definition plain_key :: "string \<Rightarrow> bool" where
  "plain_key k = (is_tag_name k \<and> k \<noteq> ''item'' \<and> k \<notin> set Object_prototype_names)"

text \<open>
  The scalars that come back as they are: a string without \<^verbatim>\<open><\<close> and \<^verbatim>\<open>>\<close> that is trimmed
  and is no boolean or numeric literal, a non-negative integer of at most 15 digits (a
  double holds it exactly and prints it in full), a boolean.
\<close>

fun scalar_ok :: "jsvalue \<Rightarrow> bool" where
  "scalar_ok (VStr s) =
     (CHR ''<'' \<notin> set s \<and> CHR ''>'' \<notin> set s \<and> trim s = s \<and>
      s \<noteq> ''true'' \<and> s \<noteq> ''false'' \<and> \<not> is_numeric_literal s)"
| "scalar_ok (VNum n fp) = (fp = [] \<and> length (show_nat n) \<le> 15)"
| "scalar_ok (VBool b) = True"
| "scalar_ok v = False"

text \<open>The text that \<^verbatim>\<open>objToXml\<close> puts between the tags of the element of a value.\<close>

definition inner_xml :: "jsvalue \<Rightarrow> string" where
  "inner_xml v =
     (case v of
        VObj es \<Rightarrow> objToXml (VObj es) None
      | VArr xs \<Rightarrow> concat (map (\<lambda>item. wrapTag ''item''
                   (if is_object item then objToXml item None else js_String item)) xs)
      | _ \<Rightarrow> js_String v)"

text \<open>
  \<open>roundtrips_under tag v\<close>: the value \<open>v\<close>, encoded in an element named \<open>tag\<close>, is decoded
  to itself. Mappings and sequences are not empty, the keys of a mapping are distinct
  plain keys, a sequence is not an element of a sequence, and the closing tag of an
  element does not occur inside the element (the lazy pattern stops at the first one).
  \<open>roundtrips v\<close> is the same for a root value, a mapping encoded without a wrapper.
\<close>

fun roundtrips_under :: "string \<Rightarrow> jsvalue \<Rightarrow> bool" where
  "roundtrips_under tag (VObj es) =
     (es \<noteq> [] \<and> distinct (map fst es) \<and>
      list_all (\<lambda>e. plain_key (fst e) \<and> roundtrips_under (fst e) (snd e)) es \<and>
      \<not> occurs (close_tag tag) (inner_xml (VObj es)))"
| "roundtrips_under tag (VArr xs) =
     (tag \<noteq> ''item'' \<and> xs \<noteq> [] \<and> list_all (roundtrips_under ''item'') xs \<and>
      \<not> occurs (close_tag tag) (inner_xml (VArr xs)))"
| "roundtrips_under tag v = scalar_ok v"







section \<open>Properties of the codec\<close>

text \<open>
  C8. \<^verbatim>\<open>xmlToObj\<close> returns a value on every input string (it is a total function: the
  recursion of \<^verbatim>\<open>parseElement\<close> terminates, and no branch of it throws). If the trimmed
  input has no \<^verbatim>\<open><\<close> the result is that trimmed text as a string, the empty string for
  blank input; if no tag pair matches, the result is the trimmed text again. In every
  case the result is a string, a mapping or a sequence.
\<close>

theorem xmlToObj_total:
  "(\<not> includes_lt (trim s) \<longrightarrow> xmlToObj s = VStr (trim s)) \<and>
   (trim s = [] \<longrightarrow> xmlToObj s = VStr []) \<and>
   (regex_exec (trim s) = None \<longrightarrow> xmlToObj s = VStr (trim s)) \<and>
   (\<exists>str obj arr. xmlToObj s = VStr str \<or> xmlToObj s = VObj obj \<or> xmlToObj s = VArr arr)"
proof (intro conjI impI)
  assume "\<not> includes_lt (trim s)"
  then show "xmlToObj s = VStr (trim s)"
    by (simp add: xmlToObj_def parseElement.simps Let_def)
next
  assume "trim s = []"
  then show "xmlToObj s = VStr []"
    by (simp add: xmlToObj_def parseElement.simps includes_lt_def Let_def)
next
  assume "regex_exec (trim s) = None"
  then show "xmlToObj s = VStr (trim s)"
    by (simp add: xmlToObj_def parseElement.simps Let_def)
next
  show "\<exists>str obj arr. xmlToObj s = VStr str \<or> xmlToObj s = VObj obj \<or> xmlToObj s = VArr arr"
    unfolding xmlToObj_def parseElement.simps [of s] Let_def
    by (simp split: list.split prod.split jsvalue.split)
qed

theorem xmlToObj_total_witness:
  "\<not> includes_lt (trim ''  plain text '') \<and> xmlToObj ''  plain text '' = VStr ''plain text'' \<and>
   trim ''   '' = [] \<and> xmlToObj ''   '' = VStr [] \<and>
   regex_exec (trim ''a < b'') = None \<and> xmlToObj ''a < b'' = VStr ''a < b''"
proof -
  have t1: "trim ''  plain text '' = ''plain text''" by code_simp
  have t2: "trim ''   '' = []" by code_simp
  have t3: "trim ''a < b'' = ''a < b''" by code_simp
  have n1: "\<not> includes_lt (trim ''  plain text '')" unfolding t1 by code_simp
  have n3: "regex_exec (trim ''a < b'') = None" unfolding t3 by code_simp
  from xmlToObj_total [of "''  plain text ''"] n1 t1
  have a: "xmlToObj ''  plain text '' = VStr ''plain text''" by simp
  from xmlToObj_total [of "''   ''"] t2 have b: "xmlToObj ''   '' = VStr []" by simp
  from xmlToObj_total [of "''a < b''"] n3 t3 have c: "xmlToObj ''a < b'' = VStr ''a < b''" by simp
  from n1 a t2 b n3 c show ?thesis by blast
qed

text \<open>
  C2, as the claim states it, fails: \<^verbatim>\<open>objToXml([1,2,3])\<close> wraps a root-level sequence in
  an \<^verbatim>\<open>array\<close> tag, and \<^verbatim>\<open>xmlToObj\<close> unwraps a lone \<^verbatim>\<open>item\<close> key only, so the result
  is not the bare sequence.
\<close>

theorem root_array_roundtrip_counterexample:
  "xmlToObj (objToXml (VArr [VNum 1 [], VNum 2 [], VNum 3 []]) None)
     \<noteq> VArr [VNum 1 [], VNum 2 [], VNum 3 []]"
  by code_simp

text \<open>
  C2, amended. \<^verbatim>\<open>objToXml([1,2,3])\<close> is
  \<^verbatim>\<open><array><item>1</item><item>2</item><item>3</item></array>\<close> and \<^verbatim>\<open>xmlToObj\<close> of it is
  the one-key mapping \<^verbatim>\<open>{array: [1,2,3]}\<close>: the sequence is restored (as a sequence, not
  as a mapping with key \<^verbatim>\<open>item\<close>) one level down, under the wrapper key. The bare
  sequence \<^verbatim>\<open>[1,2,3]\<close> is what \<^verbatim>\<open>xmlToObj\<close> returns for the \<^verbatim>\<open>item\<close> elements alone.
\<close>

theorem root_array_decodes_under_array_key:
  "objToXml (VArr [VNum 1 [], VNum 2 [], VNum 3 []]) None
     = ''<array><item>1</item><item>2</item><item>3</item></array>'' \<and>
   xmlToObj (objToXml (VArr [VNum 1 [], VNum 2 [], VNum 3 []]) None)
     = VObj [(''array'', VArr [VNum 1 [], VNum 2 [], VNum 3 []])] \<and>
   xmlToObj ''<item>1</item><item>2</item><item>3</item>''
     = VArr [VNum 1 [], VNum 2 [], VNum 3 []]"
  by code_simp

section \<open>Properties of the array check\<close>




section \<open>Properties of \<^verbatim>\<open>fetchWithPayment\<close>\<close>

lemma fetch_loop_last:
  "fetch_loop w m sw (Suc 0) evs =
     (case run_measure m (fetches w (Suc 0)) of
        Inl e \<Rightarrow> (Inl e, evs @ [HttpAttempt])
      | Inr None \<Rightarrow> (Inl (TypeError ''null is not an object (evaluating res.ok)''), evs @ [HttpAttempt])
      | Inr (Some res) \<Rightarrow>
          if ok res then (Inr res, evs @ [HttpAttempt])
          else (Inl (request_failed res), evs @ [HttpAttempt]))"
  by (simp add: fetch_loop.simps [of w m sw "Suc 0"] maxRetries_def split: sum.splits option.splits)

lemma fetch_first:
  "fetchWithPayment w m sw =
     (case run_measure m (fetches w 0) of
        Inl e \<Rightarrow> (Inl e, [HttpAttempt])
      | Inr None \<Rightarrow> (Inl (TypeError ''null is not an object (evaluating res.ok)''), [HttpAttempt])
      | Inr (Some res) \<Rightarrow>
          if ok res then (Inr res, [HttpAttempt])
          else if status res \<noteq> 402 \<or> sw = None
          then (Inl (request_failed res), [HttpAttempt])
          else
            (case pay w m of
               (Some e, pevs) \<Rightarrow> (Inl e, HttpAttempt # pevs)
             | (None, pevs) \<Rightarrow> fetch_loop w m sw (Suc 0) (HttpAttempt # pevs)))"
  unfolding fetchWithPayment_def fetch_loop.simps [of w m sw 0 "[]"] maxRetries_def
  by (simp cong: sum.case_cong option.case_cong if_cong)

lemma pay_cases:
  "pay w m = (None, [SendTransaction, ConfirmTransaction]) \<or>
   (\<exists>e. pay w m = (Some e, []) \<or> pay w m = (Some e, [SendTransaction]) \<or>
        pay w m = (Some e, [SendTransaction, ConfirmTransaction]))"
  by (simp add: pay_def split: option.splits sum.splits)

lemma pay_events:
  "snd (pay w m) = [] \<or> snd (pay w m) = [SendTransaction] \<or>
   snd (pay w m) = [SendTransaction, ConfirmTransaction]"
  using pay_cases [of w m] by auto

lemma pay_success_events:
  "fst (pay w m) = None \<Longrightarrow> pay w m = (None, [SendTransaction, ConfirmTransaction])"
  using pay_cases [of w m] by auto

lemma fetch_loop_events:
  "snd (fetch_loop w m sw (Suc 0) evs) = evs @ [HttpAttempt] \<and>
   (\<forall>res. fst (fetch_loop w m sw (Suc 0) evs) = Inr res \<longrightarrow> ok res)"
  unfolding fetch_loop_last by (simp split: sum.splits option.splits)

lemma fetch_pay_fails:
  "run_measure m (fetches w 0) = Inr (Some res) \<Longrightarrow> \<not> ok res \<Longrightarrow> status res = 402 \<Longrightarrow> sw = Some y \<Longrightarrow>
   pay w m = (Some e, pevs) \<Longrightarrow> fetchWithPayment w m sw = (Inl e, HttpAttempt # pevs)"
  by (simp add: fetch_first)

lemma fetch_pay_ok:
  "run_measure m (fetches w 0) = Inr (Some res) \<Longrightarrow> \<not> ok res \<Longrightarrow> status res = 402 \<Longrightarrow> sw = Some y \<Longrightarrow>
   pay w m = (None, pevs) \<Longrightarrow> fetchWithPayment w m sw = fetch_loop w m sw (Suc 0) (HttpAttempt # pevs)"
  by (simp add: fetch_first)

lemma count_one_attempt:
  "pevs = [] \<or> pevs = [SendTransaction] \<or> pevs = [SendTransaction, ConfirmTransaction] \<Longrightarrow>
   count_list (HttpAttempt # pevs) HttpAttempt = 1 \<and> count_list (HttpAttempt # pevs) SendTransaction \<le> 1"
  by auto

lemma count_two_attempts:
  "pevs = [] \<or> pevs = [SendTransaction] \<or> pevs = [SendTransaction, ConfirmTransaction] \<Longrightarrow>
   count_list ((HttpAttempt # pevs) @ [HttpAttempt]) HttpAttempt = 2 \<and>
   count_list ((HttpAttempt # pevs) @ [HttpAttempt]) SendTransaction \<le> 1"
  by auto

lemma fetch_bounds:
  "1 \<le> count_list (snd (fetchWithPayment w m sw)) HttpAttempt \<and>
   count_list (snd (fetchWithPayment w m sw)) HttpAttempt \<le> 2 \<and>
   count_list (snd (fetchWithPayment w m sw)) SendTransaction \<le> 1 \<and>
   (\<forall>res. fst (fetchWithPayment w m sw) = Inr res \<longrightarrow> ok res)"
proof (cases "run_measure m (fetches w 0)")
  case (Inl e)
  then show ?thesis by (simp add: fetch_first)
next
  case (Inr opt)
  show ?thesis
  proof (cases opt)
    case None
    with Inr show ?thesis by (simp add: fetch_first)
  next
    case (Some res)
    with Inr have first: "run_measure m (fetches w 0) = Inr (Some res)" by simp
    show ?thesis
    proof (cases "ok res")
      case True
      with first show ?thesis by (simp add: fetch_first)
    next
      case nok: False
      show ?thesis
      proof (cases "status res \<noteq> 402 \<or> sw = None")
        case True
        with first nok show ?thesis by (simp add: fetch_first)
      next
        case False
        then obtain y where st: "status res = 402" "sw = Some y" by auto
        obtain pe pevs where p: "pay w m = (pe, pevs)" by (cases "pay w m")
        from pay_events [of w m] p
        have pevs: "pevs = [] \<or> pevs = [SendTransaction] \<or> pevs = [SendTransaction, ConfirmTransaction]"
          by simp
        show ?thesis
        proof (cases pe)
          case (Some e)
          with p have "pay w m = (Some e, pevs)" by simp
          from fetch_pay_fails [OF first nok st this]
          have eq: "fetchWithPayment w m sw = (Inl e, HttpAttempt # pevs)" .
          from count_one_attempt [OF pevs] show ?thesis unfolding eq by simp
        next
          case None
          with p have "pay w m = (None, pevs)" by simp
          from fetch_pay_ok [OF first nok st this]
          have eq: "fetchWithPayment w m sw = fetch_loop w m sw (Suc 0) (HttpAttempt # pevs)" .
          from fetch_loop_events [of w m sw "HttpAttempt # pevs"] count_two_attempts [OF pevs]
          show ?thesis unfolding eq by simp
        qed
      qed
    qed
  qed
qed

text \<open>
  C10, as the claim states it, fails in one place: on a 402 with a configured wallet the
  call does not always pay and retry. The payment is code that can throw (the body of the
  402 response is parsed, the key and the recipient are decoded) before anything is sent,
  and then the call throws after its first attempt. The repository's own test of the
  payment path expects a rejection.
\<close>

theorem paywall_without_retry_counterexample:
  "fetches bad_key_world 0 = Inr \<lparr>status = 402, body = ''pay''\<rparr> \<and>
   fetchWithPayment bad_key_world Plain (Some \<lparr>privateKey = ''k'', rpcUrl = None\<rparr>)
     = (Inl (ExternalFailure ''bad secret key size''), [HttpAttempt])"
  by (simp add: fetch_first bad_key_world_def pay_def ok_def)


text \<open>
  C10, amended. Every call makes one or two HTTP attempts and sends at most one
  transaction, and a response it returns has an ok status. It returns the first response
  when that is ok; it throws \<^verbatim>\<open>Request failed\<close> on any other status than 402 and on a 402
  without a wallet; on a 402 with a wallet it runs the payment once, and if the payment
  throws the call throws with it, without a retry; if the payment goes through the call
  retries exactly once and returns the second response when it is ok and throws when it
  is not (a second 402 included).
\<close>

theorem fetchWithPayment_at_most_one_retry:
  "1 \<le> count_list (snd (fetchWithPayment w m sw)) HttpAttempt \<and>
   count_list (snd (fetchWithPayment w m sw)) HttpAttempt \<le> 2 \<and>
   count_list (snd (fetchWithPayment w m sw)) SendTransaction \<le> 1 \<and>
   (\<forall>res. fst (fetchWithPayment w m sw) = Inr res \<longrightarrow> ok res) \<and>
   (\<forall>res. fetches w 0 = Inr res \<and> ok res \<longrightarrow>
      fetchWithPayment w m sw = (Inr res, [HttpAttempt])) \<and>
   (\<forall>res. fetches w 0 = Inr res \<and> \<not> ok res \<and> (status res \<noteq> 402 \<or> sw = None) \<longrightarrow>
      fetchWithPayment w m sw = (Inl (request_failed res), [HttpAttempt])) \<and>
   (\<forall>res e. fetches w 0 = Inr res \<and> status res = 402 \<and> sw \<noteq> None \<and> fst (pay w m) = Some e \<longrightarrow>
      fst (fetchWithPayment w m sw) = Inl e \<and>
      count_list (snd (fetchWithPayment w m sw)) HttpAttempt = 1) \<and>
   (\<forall>res. fetches w 0 = Inr res \<and> status res = 402 \<and> sw \<noteq> None \<and> fst (pay w m) = None \<longrightarrow>
      snd (fetchWithPayment w m sw) = [HttpAttempt, SendTransaction, ConfirmTransaction, HttpAttempt] \<and>
      (\<forall>res1. fetches w 1 = Inr res1 \<longrightarrow>
         fst (fetchWithPayment w m sw) = (if ok res1 then Inr res1 else Inl (request_failed res1))))"
proof -
  have c5: "\<forall>res. fetches w 0 = Inr res \<and> ok res \<longrightarrow>
      fetchWithPayment w m sw = (Inr res, [HttpAttempt])"
    by (simp add: fetch_first)
  have c6: "\<forall>res. fetches w 0 = Inr res \<and> \<not> ok res \<and> (status res \<noteq> 402 \<or> sw = None) \<longrightarrow>
      fetchWithPayment w m sw = (Inl (request_failed res), [HttpAttempt])"
    by (simp add: fetch_first)
  have c7: "\<forall>res e. fetches w 0 = Inr res \<and> status res = 402 \<and> sw \<noteq> None \<and> fst (pay w m) = Some e \<longrightarrow>
      fst (fetchWithPayment w m sw) = Inl e \<and>
      count_list (snd (fetchWithPayment w m sw)) HttpAttempt = 1"
  proof (intro allI impI)
    fix res e
    assume a: "fetches w 0 = Inr res \<and> status res = 402 \<and> sw \<noteq> None \<and> fst (pay w m) = Some e"
    then obtain y where y: "sw = Some y" by auto
    from a have first: "run_measure m (fetches w 0) = Inr (Some res)" by simp
    from a have nok: "\<not> ok res" by (simp add: ok_def)
    obtain pevs where p: "pay w m = (Some e, pevs)" using a by (cases "pay w m") simp
    from pay_events [of w m] p
    have pevs: "pevs = [] \<or> pevs = [SendTransaction] \<or> pevs = [SendTransaction, ConfirmTransaction]"
      by simp
    from a have st: "status res = 402" by simp
    from fetch_pay_fails [OF first nok st y p]
    have eq: "fetchWithPayment w m sw = (Inl e, HttpAttempt # pevs)" .
    from count_one_attempt [OF pevs]
    show "fst (fetchWithPayment w m sw) = Inl e \<and>
      count_list (snd (fetchWithPayment w m sw)) HttpAttempt = 1"
      unfolding eq by simp
  qed
  have c8: "\<forall>res. fetches w 0 = Inr res \<and> status res = 402 \<and> sw \<noteq> None \<and> fst (pay w m) = None \<longrightarrow>
      snd (fetchWithPayment w m sw) = [HttpAttempt, SendTransaction, ConfirmTransaction, HttpAttempt] \<and>
      (\<forall>res1. fetches w 1 = Inr res1 \<longrightarrow>
         fst (fetchWithPayment w m sw) = (if ok res1 then Inr res1 else Inl (request_failed res1)))"
  proof (intro allI impI)
    fix res
    assume a: "fetches w 0 = Inr res \<and> status res = 402 \<and> sw \<noteq> None \<and> fst (pay w m) = None"
    then obtain y where y: "sw = Some y" by auto
    from a have first: "run_measure m (fetches w 0) = Inr (Some res)" by simp
    from a have nok: "\<not> ok res" by (simp add: ok_def)
    from a have st: "status res = 402" by simp
    from a have p: "pay w m = (None, [SendTransaction, ConfirmTransaction])"
      by (simp add: pay_success_events)
    from fetch_pay_ok [OF first nok st y p]
    have eq: "fetchWithPayment w m sw
        = fetch_loop w m sw (Suc 0) [HttpAttempt, SendTransaction, ConfirmTransaction]" .
    show "snd (fetchWithPayment w m sw) = [HttpAttempt, SendTransaction, ConfirmTransaction, HttpAttempt] \<and>
      (\<forall>res1. fetches w 1 = Inr res1 \<longrightarrow>
         fst (fetchWithPayment w m sw) = (if ok res1 then Inr res1 else Inl (request_failed res1)))"
      unfolding eq fetch_loop_last by (simp split: sum.splits option.splits)
  qed
  have b: "1 \<le> count_list (snd (fetchWithPayment w m sw)) HttpAttempt \<and>
   count_list (snd (fetchWithPayment w m sw)) HttpAttempt \<le> 2 \<and>
   count_list (snd (fetchWithPayment w m sw)) SendTransaction \<le> 1 \<and>
   (\<forall>res. fst (fetchWithPayment w m sw) = Inr res \<longrightarrow> ok res)" by (rule fetch_bounds)
  from b c5 c6 c7 c8 show ?thesis by (elim conjE, intro conjI) assumption+
qed

theorem fetchWithPayment_at_most_one_retry_witness:
  "fetches paywall_then_ok 0 = Inr \<lparr>status = 402, body = ''pay''\<rparr> \<and>
   fst (pay paywall_then_ok Plain) = None \<and>
   fetches paywall_then_ok 1 = Inr \<lparr>status = 200, body = ''ok''\<rparr> \<and>
   ok \<lparr>status = 200, body = ''ok''\<rparr> \<and>
   snd (fetchWithPayment paywall_then_ok Plain (Some \<lparr>privateKey = ''k'', rpcUrl = None\<rparr>))
     = [HttpAttempt, SendTransaction, ConfirmTransaction, HttpAttempt] \<and>
   fst (fetchWithPayment paywall_then_ok Plain (Some \<lparr>privateKey = ''k'', rpcUrl = None\<rparr>))
     = Inr \<lparr>status = 200, body = ''ok''\<rparr>"
proof -
  have a: "fetches paywall_then_ok 0 = Inr \<lparr>status = 402, body = ''pay''\<rparr>"
    by (simp add: paywall_then_ok_def)
  have b: "fst (pay paywall_then_ok Plain) = None"
    by (simp add: paywall_then_ok_def pay_def)
  have c: "fetches paywall_then_ok 1 = Inr \<lparr>status = 200, body = ''ok''\<rparr>"
    by (simp add: paywall_then_ok_def)
  have d: "ok \<lparr>status = 200, body = ''ok''\<rparr>" by (simp add: ok_def)
  note t = fetchWithPayment_at_most_one_retry
         [of paywall_then_ok Plain "Some \<lparr>privateKey = ''k'', rpcUrl = None\<rparr>"]
  from t have last: "\<forall>res. fetches paywall_then_ok 0 = Inr res \<and> status res = 402 \<and>
        Some \<lparr>privateKey = ''k'', rpcUrl = None\<rparr> \<noteq> None \<and> fst (pay paywall_then_ok Plain) = None \<longrightarrow>
      snd (fetchWithPayment paywall_then_ok Plain (Some \<lparr>privateKey = ''k'', rpcUrl = None\<rparr>))
        = [HttpAttempt, SendTransaction, ConfirmTransaction, HttpAttempt] \<and>
      (\<forall>res1. fetches paywall_then_ok 1 = Inr res1 \<longrightarrow>
         fst (fetchWithPayment paywall_then_ok Plain (Some \<lparr>privateKey = ''k'', rpcUrl = None\<rparr>))
           = (if ok res1 then Inr res1 else Inl (request_failed res1)))"
    by (elim conjE)
  have pre: "fetches paywall_then_ok 0 = Inr \<lparr>status = 402, body = ''pay''\<rparr> \<and>
        status \<lparr>status = 402, body = ''pay''\<rparr> = 402 \<and>
        Some \<lparr>privateKey = ''k'', rpcUrl = None\<rparr> \<noteq> None \<and> fst (pay paywall_then_ok Plain) = None"
    using a b by simp
  from last [rule_format, OF pre]
  have e: "snd (fetchWithPayment paywall_then_ok Plain (Some \<lparr>privateKey = ''k'', rpcUrl = None\<rparr>))
        = [HttpAttempt, SendTransaction, ConfirmTransaction, HttpAttempt]"
    and f: "\<forall>res1. fetches paywall_then_ok 1 = Inr res1 \<longrightarrow>
         fst (fetchWithPayment paywall_then_ok Plain (Some \<lparr>privateKey = ''k'', rpcUrl = None\<rparr>))
           = (if ok res1 then Inr res1 else Inl (request_failed res1))"
    by simp_all
  from f [rule_format, OF c] d
  have g: "fst (fetchWithPayment paywall_then_ok Plain (Some \<lparr>privateKey = ''k'', rpcUrl = None\<rparr>))
     = Inr \<lparr>status = 200, body = ''ok''\<rparr>" by simp
  from a b c d e g show ?thesis by (intro conjI)
qed

section \<open>Properties of decoded values\<close>















lemma parseElement_kind:
  "\<exists>str obj arr. parseElement s = VStr str \<or> parseElement s = VObj obj \<or> parseElement s = VArr arr"
  unfolding parseElement.simps [of s] Let_def
  by (simp split: list.split prod.split jsvalue.split)

lemma xmlToObj_not_null: "xmlToObj s \<noteq> VUndefined \<and> xmlToObj s \<noteq> VNull"
  using parseElement_kind [of s] by (auto simp: xmlToObj_def)

lemma js_get_total: "v \<noteq> VUndefined \<Longrightarrow> v \<noteq> VNull \<Longrightarrow> \<exists>x. js_get v k = Inr x"
  by (cases v) simp_all

lemma selection_names_total:
  assumes "v \<noteq> VUndefined" "v \<noteq> VNull"
  shows "\<exists>names. selection_names outer inner v = Inr names"
proof -
  from js_get_total [OF assms] obtain sel where sel: "js_get v outer = Inr sel" by blast
  show ?thesis
  proof (cases "sel = VUndefined \<or> sel = VNull")
    case True
    with sel show ?thesis by (auto simp: selection_names_def)
  next
    case False
    then obtain x where "js_get sel inner = Inr x" using js_get_total [of sel inner] by blast
    with sel False show ?thesis by (simp add: selection_names_def)
  qed
qed





section \<open>Properties of the selection steps\<close>

lemma is_digit_not_letter: "is_letter c \<Longrightarrow> \<not> is_digit c"
  by (auto simp: is_letter_def is_digit_def)

lemma array_index_letter: "is_letter c \<Longrightarrow> array_index (c # cs) = None"
  by (simp add: array_index_def is_digit_not_letter)

lemma selection_names_of_text:
  assumes "is_letter c" "c # cs \<noteq> ''length''"
  shows "selection_names (c # cs) inner (VStr t) = Inr (VArr [])"
  using assms by (simp add: selection_names_def array_index_letter)

lemma names_match_empty: "filter (\<lambda>x. names_match (VArr []) (f x)) xs = []"
  by (induction xs) simp_all

text \<open>
  C5, as the claim states it, fails: a selection response that does not decode to a
  selection does not make the agent proceed with all providers. \<^verbatim>\<open>xmlToObj\<close> never throws
  (it returns free text as a string), so the \<^verbatim>\<open>catch\<close> that returns all providers is
  never entered, and for an unset selection the code takes \<^verbatim>\<open>|| []\<close>, the empty selection.
\<close>

theorem undecodable_selection_selects_no_server_counterexample:
  "xmlToObj ''I cannot decide'' = VStr ''I cannot decide'' \<and>
   selectRelevantServers weather_servers (Some ''I cannot decide'') \<noteq> weather_servers \<and>
   xmlToObj ''<relevant_servers></relevant_servers>'' = VObj [(''relevant_servers'', VStr [])] \<and>
   selectRelevantServers weather_servers (Some ''<relevant_servers></relevant_servers>'') \<noteq> weather_servers"
  by code_simp

text \<open>
  C5, amended. The provider selection returns all configured providers when the
  generation service yields no response text (null or the empty string). On a non-empty
  response the \<^verbatim>\<open>catch\<close> is never entered: the result is the configured providers whose
  name the decoded \<^verbatim>\<open>relevant_servers.server_names\<close> holds, and it is empty when the
  response leaves that selection unset, in particular on free text that decodes to a
  string.
\<close>

theorem selectRelevantServers_fallback:
  "selectRelevantServers configured None = configured \<and>
   selectRelevantServers configured (Some []) = configured \<and>
   (\<forall>r. r \<noteq> [] \<longrightarrow>
      (\<exists>serverNames. selection_names ''relevant_servers'' ''server_names'' (xmlToObj r) = Inr serverNames \<and>
         selectRelevantServers configured (Some r)
           = filter (\<lambda>server. names_match serverNames (server_name server)) configured)) \<and>
   (\<forall>r. r \<noteq> [] \<and> selection_names ''relevant_servers'' ''server_names'' (xmlToObj r) = Inr (VArr []) \<longrightarrow>
      selectRelevantServers configured (Some r) = []) \<and>
   (\<forall>r t. r \<noteq> [] \<and> xmlToObj r = VStr t \<longrightarrow> selectRelevantServers configured (Some r) = [])"
proof (intro conjI allI impI)
  show "selectRelevantServers configured None = configured"
    by (simp add: selectRelevantServers_def)
  show "selectRelevantServers configured (Some []) = configured"
    by (simp add: selectRelevantServers_def)
next
  fix r :: string assume r: "r \<noteq> []"
  from xmlToObj_not_null [of r]
  obtain names where n: "selection_names ''relevant_servers'' ''server_names'' (xmlToObj r) = Inr names"
    using selection_names_total by blast
  with r have "selectRelevantServers configured (Some r)
      = filter (\<lambda>server. names_match names (server_name server)) configured"
    by (simp add: selectRelevantServers_def)
  with n show "\<exists>serverNames. selection_names ''relevant_servers'' ''server_names'' (xmlToObj r) = Inr serverNames \<and>
         selectRelevantServers configured (Some r)
           = filter (\<lambda>server. names_match serverNames (server_name server)) configured"
    by blast
next
  fix r :: string
  assume "r \<noteq> [] \<and> selection_names ''relevant_servers'' ''server_names'' (xmlToObj r) = Inr (VArr [])"
  then show "selectRelevantServers configured (Some r) = []"
    by (simp add: selectRelevantServers_def names_match_empty)
next
  fix r t :: string
  assume a: "r \<noteq> [] \<and> xmlToObj r = VStr t"
  have "selection_names ''relevant_servers'' ''server_names'' (VStr t) = Inr (VArr [])"
    by (rule selection_names_of_text) (simp_all add: is_letter_def)
  with a show "selectRelevantServers configured (Some r) = []"
    by (simp add: selectRelevantServers_def names_match_empty)
qed


theorem selectRelevantServers_fallback_witness:
  "''I cannot decide'' \<noteq> [] \<and> xmlToObj ''I cannot decide'' = VStr ''I cannot decide'' \<and>
   selectRelevantServers weather_servers (Some ''I cannot decide'') = [] \<and>
   selectRelevantServers weather_servers None = weather_servers"
proof -
  have d: "xmlToObj ''I cannot decide'' = VStr ''I cannot decide''" by code_simp
  note t = selectRelevantServers_fallback [of weather_servers]
  from t have last: "\<forall>r t. r \<noteq> [] \<and> xmlToObj r = VStr t \<longrightarrow> selectRelevantServers weather_servers (Some r) = []"
    by (elim conjE)
  from t have first: "selectRelevantServers weather_servers None = weather_servers" by (elim conjE)
  from last [rule_format, of "''I cannot decide''" "''I cannot decide''"] d
  have "selectRelevantServers weather_servers (Some ''I cannot decide'') = []" by simp
  with d first show ?thesis by simp
qed

text \<open>
  C6, as the claim states it, fails: on a selection response that does not decode to a
  selection the tool selection is empty, not the first discovered capability.
\<close>

theorem undecodable_selection_selects_no_tool_counterexample:
  "xmlToObj ''no tool fits'' = VStr ''no tool fits'' \<and>
   selectRelevantTools weather_tools (Some ''no tool fits'') = [] \<and>
   take 1 weather_tools = [MCPTool ''forecast'' ''forecast for a city'' (VObj [])]"
  by code_simp

text \<open>
  C6, amended. The tool selection falls back to exactly the first discovered capability
  when the generation service yields no response text (null or the empty string). On a
  non-empty response the \<^verbatim>\<open>catch\<close> is never entered: the result is the discovered
  capabilities whose name the decoded \<^verbatim>\<open>selected_tools.tool_names\<close> holds, and it is
  empty on free text that decodes to a string.
\<close>

theorem selectRelevantTools_fallback:
  "selectRelevantTools tools None = take 1 tools \<and>
   selectRelevantTools tools (Some []) = take 1 tools \<and>
   (\<forall>r. r \<noteq> [] \<longrightarrow>
      (\<exists>toolNames. selection_names ''selected_tools'' ''tool_names'' (xmlToObj r) = Inr toolNames \<and>
         selectRelevantTools tools (Some r)
           = filter (\<lambda>tool. names_match toolNames (tool_name tool)) tools)) \<and>
   (\<forall>r t. r \<noteq> [] \<and> xmlToObj r = VStr t \<longrightarrow> selectRelevantTools tools (Some r) = [])"
proof (intro conjI allI impI)
  show "selectRelevantTools tools None = take 1 tools"
    by (simp add: selectRelevantTools_def)
  show "selectRelevantTools tools (Some []) = take 1 tools"
    by (simp add: selectRelevantTools_def)
next
  fix r :: string assume r: "r \<noteq> []"
  from xmlToObj_not_null [of r]
  obtain names where n: "selection_names ''selected_tools'' ''tool_names'' (xmlToObj r) = Inr names"
    using selection_names_total by blast
  with r have "selectRelevantTools tools (Some r)
      = filter (\<lambda>tool. names_match names (tool_name tool)) tools"
    by (simp add: selectRelevantTools_def)
  with n show "\<exists>toolNames. selection_names ''selected_tools'' ''tool_names'' (xmlToObj r) = Inr toolNames \<and>
         selectRelevantTools tools (Some r)
           = filter (\<lambda>tool. names_match toolNames (tool_name tool)) tools"
    by blast
next
  fix r t :: string
  assume a: "r \<noteq> [] \<and> xmlToObj r = VStr t"
  have "selection_names ''selected_tools'' ''tool_names'' (VStr t) = Inr (VArr [])"
    by (rule selection_names_of_text) (simp_all add: is_letter_def)
  with a show "selectRelevantTools tools (Some r) = []"
    by (simp add: selectRelevantTools_def names_match_empty)
qed

theorem selectRelevantTools_fallback_witness:
  "''no tool fits'' \<noteq> [] \<and> xmlToObj ''no tool fits'' = VStr ''no tool fits'' \<and>
   selectRelevantTools weather_tools (Some ''no tool fits'') = [] \<and>
   selectRelevantTools weather_tools None = [MCPTool ''forecast'' ''forecast for a city'' (VObj [])]"
proof -
  have d: "xmlToObj ''no tool fits'' = VStr ''no tool fits''" by code_simp
  note t = selectRelevantTools_fallback [of weather_tools]
  from t have last: "\<forall>r t. r \<noteq> [] \<and> xmlToObj r = VStr t \<longrightarrow> selectRelevantTools weather_tools (Some r) = []"
    by (elim conjE)
  from t have first: "selectRelevantTools weather_tools None = take 1 weather_tools" by (elim conjE)
  from last [rule_format, of "''no tool fits''" "''no tool fits''"] d
  have "selectRelevantTools weather_tools (Some ''no tool fits'') = []" by simp
  moreover have "take 1 weather_tools = [MCPTool ''forecast'' ''forecast for a city'' (VObj [])]"
    by (simp add: weather_tools_def)
  ultimately show ?thesis using d first by simp
qed

section \<open>Properties of the reconciliation\<close>










section \<open>Properties of the end of \<^verbatim>\<open>Agent.run\<close>\<close>



text \<open>
  With a \<^verbatim>\<open>measure\<close> that lets errors through, as the mock of the repository's tests does,
  the failure of the validation is the failure of the run.
\<close>

lemma run_final_plain_rethrows:
  "parse (VObj []) = Inl e \<Longrightarrow> run_final Plain parse shape (Inr (Some [])) = Inl e"
  by (simp add: run_final_def generateResponse_def or_empty_def)

section \<open>Properties of the streaming extractor\<close>

lemma streamed_text_append [simp]:
  "streamed_text p (us @ vs) = streamed_text p us @ streamed_text p vs"
  by (simp add: streamed_text_def)

lemma streamed_text_Nil [simp]: "streamed_text p [] = []"
  by (simp add: streamed_text_def)

lemma streamed_text_Cons:
  "streamed_text p ((f, v) # us) = (if f = p then v else []) @ streamed_text p us"
  by (simp add: streamed_text_def)

lemma processChunk_append:
  "processChunk st (a @ b) =
     (case processChunk st a of (s1, u1) \<Rightarrow> (case processChunk s1 b of (s2, u2) \<Rightarrow> (s2, u1 @ u2)))"
  by (induction a arbitrary: st) (auto split: prod.splits)

lemma processChunks_concat: "processChunks st chunks = processChunk st (concat chunks)"
  by (induction chunks arbitrary: st) (auto simp: processChunk_append split: prod.splits)

lemma concat_char_by_char [simp]: "concat (char_by_char s) = s"
  by (induction s) (simp_all add: char_by_char_def)

lemma text_char:
  assumes "c \<noteq> CHR ''<''" "settled st" "process_char st c = (st', us)"
  shows "settled st' \<and> tagStack st' = tagStack st \<and>
         streamed_text p us @ pending p st'
           = pending p st @ (if tagStack st \<noteq> [] \<and> join ''_'' (tagStack st) = p then [c] else [])"
proof (cases "tagStack st = []")
  case True
  with assms show ?thesis
    by (auto simp: process_char_def settled_def pending_def)
next
  case False
  show ?thesis
  proof (cases "c = CHR '' '' \<or> c = CHR 0x0A")
    case True
    with assms False have st': "st' = st\<lparr>wordBuffer := []\<rparr>"
      and us: "us = (if wordBuffer st \<noteq> [] then [(join ''_'' (tagStack st), wordBuffer st)] else [])
                 @ [(join ''_'' (tagStack st), [c])]"
      by (auto simp: process_char_def settled_def)
    show ?thesis unfolding st' us using assms(2) False
      by (simp add: settled_def pending_def streamed_text_Cons)
  next
    case ws: False
    with assms False have st': "st' = st\<lparr>wordBuffer := wordBuffer st @ [c]\<rparr>" and us: "us = []"
      by (auto simp: process_char_def settled_def)
    show ?thesis unfolding st' us using assms(2) False
      by (simp add: settled_def pending_def)
  qed
qed

lemma text_chunk:
  "CHR ''<'' \<notin> set t \<Longrightarrow> settled st \<Longrightarrow> processChunk st t = (st', us) \<Longrightarrow>
   settled st' \<and> tagStack st' = tagStack st \<and>
   streamed_text p us @ pending p st'
     = pending p st @ (if tagStack st \<noteq> [] \<and> join ''_'' (tagStack st) = p then t else [])"
proof (induction t arbitrary: st st' us)
  case Nil
  then show ?case by simp
next
  case (Cons c cs)
  obtain s1 u1 where s1: "process_char st c = (s1, u1)" by (cases "process_char st c")
  obtain s2 u2 where s2: "processChunk s1 cs = (s2, u2)" by (cases "processChunk s1 cs")
  from Cons.prems(3) s1 s2 have eq: "st' = s2" "us = u1 @ u2" by simp_all
  from Cons.prems(1) have c: "c \<noteq> CHR ''<''" and cs: "CHR ''<'' \<notin> set cs" by auto
  from text_char [OF c Cons.prems(2) s1, of p]
  have a: "settled s1" "tagStack s1 = tagStack st"
    "streamed_text p u1 @ pending p s1
       = pending p st @ (if tagStack st \<noteq> [] \<and> join ''_'' (tagStack st) = p then [c] else [])"
    by simp_all
  from Cons.IH [OF cs a(1) s2]
  have b: "settled s2" "tagStack s2 = tagStack s1"
    "streamed_text p u2 @ pending p s2
       = pending p s1 @ (if tagStack s1 \<noteq> [] \<and> join ''_'' (tagStack s1) = p then cs else [])"
    by simp_all
  have "streamed_text p (u1 @ u2) @ pending p s2
      = streamed_text p u1 @ (streamed_text p u2 @ pending p s2)" by simp
  also have "\<dots> = streamed_text p u1 @ pending p s1
      @ (if tagStack st \<noteq> [] \<and> join ''_'' (tagStack st) = p then cs else [])"
    unfolding b(3) a(2) by simp
  also have "\<dots> = (streamed_text p u1 @ pending p s1)
      @ (if tagStack st \<noteq> [] \<and> join ''_'' (tagStack st) = p then cs else [])" by simp
  also have "\<dots> = (pending p st @ (if tagStack st \<noteq> [] \<and> join ''_'' (tagStack st) = p then [c] else []))
      @ (if tagStack st \<noteq> [] \<and> join ''_'' (tagStack st) = p then cs else [])" by (simp only: a(3))
  also have "\<dots> = pending p st @ (if tagStack st \<noteq> [] \<and> join ''_'' (tagStack st) = p then c # cs else [])"
    by simp
  finally show ?case using b(1,2) a(2) eq by simp
qed

lemma inside_tag_chunk:
  "insideTag st \<Longrightarrow> CHR ''<'' \<notin> set n \<Longrightarrow> CHR ''>'' \<notin> set n \<Longrightarrow>
   processChunk st n = (st\<lparr>currentTagName := currentTagName st @ n\<rparr>, [])"
proof (induction n arbitrary: st)
  case Nil
  then show ?case by simp
next
  case (Cons c cs)
  from Cons.prems have c: "c \<noteq> CHR ''<''" "c \<noteq> CHR ''>''" by auto
  with Cons.prems(1) have pc: "process_char st c = (st\<lparr>currentTagName := currentTagName st @ [c]\<rparr>, [])"
    by (simp add: process_char_def)
  have "insideTag (st\<lparr>currentTagName := currentTagName st @ [c]\<rparr>)" using Cons.prems(1) by simp
  from Cons.IH [OF this] Cons.prems pc show ?case by simp
qed

lemma flush_pending:
  "streamed_text p (if wordBuffer st \<noteq> [] \<and> tagStack st \<noteq> []
                    then [(join ''_'' (tagStack st), wordBuffer st)] else []) = pending p st"
  by (simp add: pending_def streamed_text_Cons)

lemma lt_char:
  "process_char st (CHR ''<'') =
     (st\<lparr>wordBuffer := [], insideTag := True, currentTagName := []\<rparr>,
      if wordBuffer st \<noteq> [] \<and> tagStack st \<noteq> []
      then [(join ''_'' (tagStack st), wordBuffer st)] else [])"
  by (simp add: process_char_def)

lemma gt_char:
  "insideTag st \<Longrightarrow> process_char st (CHR ''>'') =
     (st\<lparr>insideTag := False,
         tagStack := (if starts_with ''/'' (currentTagName st) then butlast (tagStack st)
                      else if trim (currentTagName st) \<noteq> []
                      then tagStack st @ [trim (currentTagName st)]
                      else tagStack st),
         currentTagName := [], wordBuffer := []\<rparr>, [])"
  by (simp add: process_char_def)

lemma tag_chunk:
  assumes "CHR ''<'' \<notin> set n" "CHR ''>'' \<notin> set n"
  shows "processChunk st (''<'' @ n @ ''>'') =
     (st\<lparr>wordBuffer := [], insideTag := False, currentTagName := [],
         tagStack := (if starts_with ''/'' n then butlast (tagStack st)
                      else if trim n \<noteq> [] then tagStack st @ [trim n] else tagStack st)\<rparr>,
      if wordBuffer st \<noteq> [] \<and> tagStack st \<noteq> []
      then [(join ''_'' (tagStack st), wordBuffer st)] else [])"
proof -
  let ?s1 = "st\<lparr>wordBuffer := [], insideTag := True, currentTagName := []\<rparr>"
  let ?s2 = "?s1\<lparr>currentTagName := currentTagName ?s1 @ n\<rparr>"
  have i1: "insideTag ?s1" by simp
  have i2: "insideTag ?s2" by simp
  have b: "processChunk ?s1 n = (?s2, [])" by (rule inside_tag_chunk [OF i1 assms])
  have c: "processChunk ?s2 ''>'' = (fst (process_char ?s2 (CHR ''>'')), snd (process_char ?s2 (CHR ''>'')))"
    by (simp split: prod.splits)
  have "processChunk st (''<'' @ n @ ''>'') =
      (case process_char st (CHR ''<'') of (s1, u1) \<Rightarrow>
         (case processChunk s1 (n @ ''>'') of (s2, u2) \<Rightarrow> (s2, u1 @ u2)))"
    by simp
  also have "\<dots> = (case processChunk ?s1 (n @ ''>'') of (s2, u2) \<Rightarrow>
      (s2, (if wordBuffer st \<noteq> [] \<and> tagStack st \<noteq> []
            then [(join ''_'' (tagStack st), wordBuffer st)] else []) @ u2))"
    by (simp only: lt_char prod.case)
  also have "processChunk ?s1 (n @ ''>'') = (fst (process_char ?s2 (CHR ''>'')), snd (process_char ?s2 (CHR ''>'')))"
    by (simp only: processChunk_append b c prod.case append_Nil)
  also have "process_char ?s2 (CHR ''>'') =
     (?s2\<lparr>insideTag := False,
         tagStack := (if starts_with ''/'' (currentTagName ?s2) then butlast (tagStack ?s2)
                      else if trim (currentTagName ?s2) \<noteq> []
                      then tagStack ?s2 @ [trim (currentTagName ?s2)]
                      else tagStack ?s2),
         currentTagName := [], wordBuffer := []\<rparr>, [])"
    by (rule gt_char [OF i2])
  finally show ?thesis by simp
qed

lemma open_chunk:
  assumes "wf_token (Open n)" "settled st" "processChunk st (render_token (Open n)) = (st', us)"
  shows "settled st' \<and> tagStack st' = tagStack st @ [n] \<and> streamed_text p us @ pending p st' = pending p st"
proof -
  from assms(1) have n: "CHR ''<'' \<notin> set n" "CHR ''>'' \<notin> set n" "n \<noteq> []" "hd n \<noteq> CHR ''/''" "trim n = n"
    by simp_all
  from n(3,4) have ns: "\<not> starts_with ''/'' n" by (cases n) (simp_all add: starts_with_def)
  from assms(3) tag_chunk [OF n(1,2), of st] ns n(3,5)
  have st': "st' = st\<lparr>wordBuffer := [], insideTag := False, currentTagName := [], tagStack := tagStack st @ [n]\<rparr>"
    and us: "us = (if wordBuffer st \<noteq> [] \<and> tagStack st \<noteq> []
                   then [(join ''_'' (tagStack st), wordBuffer st)] else [])"
    by simp_all
  show ?thesis unfolding st' us flush_pending by (simp add: settled_def pending_def)
qed

lemma close_chunk:
  assumes "wf_token (Close n)" "settled st" "processChunk st (render_token (Close n)) = (st', us)"
  shows "settled st' \<and> tagStack st' = butlast (tagStack st) \<and> streamed_text p us @ pending p st' = pending p st"
proof -
  from assms(1) have n: "CHR ''<'' \<notin> set (''/'' @ n)" "CHR ''>'' \<notin> set (''/'' @ n)" by simp_all
  have ns: "starts_with ''/'' (''/'' @ n)" by (simp add: starts_with_def)
  have r: "render_token (Close n) = ''<'' @ (''/'' @ n) @ ''>''" by simp
  from assms(3) tag_chunk [OF n, of st] ns
  have st': "st' = st\<lparr>wordBuffer := [], insideTag := False, currentTagName := [], tagStack := butlast (tagStack st)\<rparr>"
    and us: "us = (if wordBuffer st \<noteq> [] \<and> tagStack st \<noteq> []
                   then [(join ''_'' (tagStack st), wordBuffer st)] else [])"
    unfolding r by simp_all
  show ?thesis unfolding st' us flush_pending by (simp add: settled_def pending_def)
qed

lemma tokens_chunk:
  "list_all wf_token ts \<Longrightarrow> settled st \<Longrightarrow> processChunk st (render ts) = (st', us) \<Longrightarrow>
   settled st' \<and> tagStack st' = stack_after (tagStack st) ts \<and>
   streamed_text p us @ pending p st' = pending p st @ text_at p (tagStack st) ts"
proof (induction ts arbitrary: st st' us)
  case Nil
  then show ?case by (simp add: render_def)
next
  case (Cons tok ts)
  obtain s1 u1 where s1: "processChunk st (render_token tok) = (s1, u1)"
    by (cases "processChunk st (render_token tok)")
  obtain s2 u2 where s2: "processChunk s1 (render ts) = (s2, u2)"
    by (cases "processChunk s1 (render ts)")
  have "render (tok # ts) = render_token tok @ render ts" by (simp add: render_def)
  with Cons.prems(3) s1 s2 have eq: "st' = s2" "us = u1 @ u2"
    by (simp_all add: processChunk_append)
  from Cons.prems(1) have wt: "wf_token tok" and wts: "list_all wf_token ts" by simp_all
  have step: "settled s1 \<and> tagStack s1 = stack_after (tagStack st) [tok] \<and>
      streamed_text p u1 @ pending p s1 = pending p st @ text_at p (tagStack st) [tok]"
  proof (cases tok)
    case (Open n)
    with open_chunk [OF _ Cons.prems(2), of n s1 u1 p] wt s1 show ?thesis by simp
  next
    case (Close n)
    with close_chunk [OF _ Cons.prems(2), of n s1 u1 p] wt s1 show ?thesis by simp
  next
    case (Text t)
    with text_chunk [OF _ Cons.prems(2), of t s1 u1 p] wt s1 show ?thesis by simp
  qed
  then have a: "settled s1" "tagStack s1 = stack_after (tagStack st) [tok]"
    "streamed_text p u1 @ pending p s1 = pending p st @ text_at p (tagStack st) [tok]" by simp_all
  from Cons.IH [OF wts a(1) s2]
  have b: "settled s2" "tagStack s2 = stack_after (tagStack s1) ts"
    "streamed_text p u2 @ pending p s2 = pending p s1 @ text_at p (tagStack s1) ts" by simp_all
  have sa: "stack_after (tagStack st) (tok # ts) = stack_after (stack_after (tagStack st) [tok]) ts"
    by (cases tok) simp_all
  have ta: "text_at p (tagStack st) (tok # ts)
      = text_at p (tagStack st) [tok] @ text_at p (stack_after (tagStack st) [tok]) ts"
    by (cases tok) simp_all
  have "streamed_text p (u1 @ u2) @ pending p s2 = streamed_text p u1 @ (streamed_text p u2 @ pending p s2)"
    by simp
  also have "\<dots> = (streamed_text p u1 @ pending p s1) @ text_at p (tagStack s1) ts"
    by (simp only: b(3) append_assoc)
  also have "\<dots> = (pending p st @ text_at p (tagStack st) [tok]) @ text_at p (tagStack s1) ts"
    by (simp only: a(3))
  also have "\<dots> = pending p st @ text_at p (tagStack st) (tok # ts)"
    by (simp only: ta a(2) append_assoc)
  finally show ?case using b(1,2) a(2) sa eq by simp
qed

lemma streaming_tokens:
  assumes "list_all wf_token ts" "concat chunks = render ts"
  shows "streamed_text p (snd (callLLM_streaming chunks)) = text_at p [] ts"
proof -
  obtain st us where r: "processChunk initial_stream (render ts) = (st, us)"
    by (cases "processChunk initial_stream (render ts)")
  have s0: "settled initial_stream" by (simp add: settled_def initial_stream_def)
  have p0: "pending p initial_stream = []" by (simp add: pending_def initial_stream_def)
  have t0: "tagStack initial_stream = []" by (simp add: initial_stream_def)
  from tokens_chunk [OF assms(1) s0 r, of p]
  have a: "settled st" "streamed_text p us @ pending p st = text_at p [] ts"
    unfolding p0 t0 by simp_all
  have "streamed_text p (final_flush st) = pending p st"
    unfolding final_flush_def by (rule flush_pending)
  with a(2) r assms(2) show ?thesis
    by (simp add: callLLM_streaming_def processChunks_concat)
qed

lemma occurs_Cons: "occurs p (x # xs) = (starts_with p (x # xs) \<or> occurs p xs)"
  by (auto simp: occurs_def)

lemma take_prefix: "n \<le> length a \<Longrightarrow> take n (a @ b) = take n a"
  by simp

lemma starts_with_self: "starts_with p (p @ rest)"
  by (simp add: starts_with_def)

lemma starts_with_overlap:
  assumes "p = c0 # q" "c0 \<notin> set q" "starts_with p ((x # xs) @ p @ rest)"
  shows "starts_with p (x # xs)"
proof (rule ccontr)
  assume ns: "\<not> starts_with p (x # xs)"
  let ?k = "length (x # xs)"
  from assms(3) have tk: "take (length p) ((x # xs) @ p @ rest) = p" by (simp add: starts_with_def)
  have "length p > ?k"
  proof (rule ccontr)
    assume "\<not> length p > ?k"
    then have "length p \<le> ?k" by simp
    then have "take (length p) ((x # xs) @ p @ rest) = take (length p) (x # xs)"
      by (rule take_prefix)
    with tk ns show False by (simp add: starts_with_def)
  qed
  then have kp: "?k < length p" .
  from tk have "p ! ?k = (take (length p) ((x # xs) @ p @ rest)) ! ?k" by simp
  also have "\<dots> = ((x # xs) @ p @ rest) ! ?k" using kp by simp
  also have "\<dots> = (p @ rest) ! 0" by (simp add: nth_append)
  also have "\<dots> = c0" using assms(1) by simp
  finally have "p ! ?k = c0" .
  moreover have "p ! ?k \<in> set q"
  proof -
    from kp assms(1) have "length xs < length q" by simp
    moreover have "p ! ?k = q ! length xs" using assms(1) by simp
    ultimately show ?thesis by simp
  qed
  ultimately show False using assms(2) by simp
qed

lemma split_at_unique:
  assumes "p = c0 # q" "c0 \<notin> set q"
  shows "\<not> occurs p inner \<Longrightarrow> split_at p (inner @ p @ rest) = Some (inner, rest)"
proof (induction inner)
  case Nil
  from assms(1) obtain y ys where pr: "p @ rest = y # ys" by simp
  have "starts_with p (y # ys)" unfolding pr [symmetric] by (rule starts_with_self)
  then have "split_at p (y # ys) = Some ([], drop (length p) (y # ys))" by simp
  then show ?case unfolding pr [symmetric] by simp
next
  case (Cons x xs)
  from Cons.prems have ns: "\<not> starts_with p (x # xs)" and no: "\<not> occurs p xs"
    by (simp_all add: occurs_Cons)
  have "\<not> starts_with p ((x # xs) @ p @ rest)"
    using starts_with_overlap [OF assms] ns by blast
  then have "split_at p ((x # xs) @ p @ rest)
      = map_option (\<lambda>(a, b). (x # a, b)) (split_at p (xs @ p @ rest))" by simp
  with Cons.IH [OF no] show ?case by simp
qed

lemma not_occurs_without_head: "c0 \<notin> set s \<Longrightarrow> \<not> occurs (c0 # q) s"
  by (induction s) (auto simp: occurs_def starts_with_def)

lemma text_at_append:
  "text_at p st (a @ b) = text_at p st a @ text_at p (stack_after st a) b"
proof (induction a arbitrary: st)
  case Nil
  show ?case by simp
next
  case (Cons tok a)
  then show ?case by (cases tok) simp_all
qed

lemma render_append: "render (a @ b) = render a @ render b"
  by (simp add: render_def)

text \<open>
  C3, as the claim states it, fails: not every complete response text streams exactly.
  A \<^verbatim>\<open><\<close> inside the text of a leaf starts a tag for the extractor, which drops it and
  what follows it up to the next tag, while the pattern extraction of that tag yields the
  whole inner text; and two elements of the same path are streamed as one text.
\<close>

theorem streaming_drops_text_counterexample:
  "streamed_text ''a'' (snd (callLLM_streaming (char_by_char ''<a>1 < 2</a>''))) = ''1 '' \<and>
   field_regex_match ''a'' ''<a>1 < 2</a>'' = Some ''1 < 2'' \<and>
   streamed_text ''a'' (snd (callLLM_streaming (char_by_char ''<a>x</a><a>y</a>''))) = ''xy'' \<and>
   field_regex_match ''a'' ''<a>x</a><a>y</a>'' = Some ''x''"
  by code_simp

text \<open>
  C3, amended. Take a response made of opening tags, closing tags and text free of
  \<^verbatim>\<open><\<close>, in which a leaf \<^verbatim>\<open><n>t</n>\<close> lies at a path that no other text of the response
  lies at. Fed to the streaming extractor in any chunks, character by character in
  particular, the values of the updates sent for that path, concatenated in order, are
  exactly \<open>t\<close>, the raw inner text of the leaf with no coercion; the text returned is the
  whole response; and when no \<^verbatim>\<open><n>\<close> occurs before the leaf, \<open>t\<close> is what the pattern
  extraction of that tag yields.
\<close>

theorem streaming_leaf_text:
  assumes "list_all wf_token (pre @ [Open n, Text t, Close n] @ post)"
    and "path = join ''_'' (stack_after [] pre @ [n])"
    and "text_at path [] pre = []"
    and "text_at path (stack_after [] pre) post = []"
    and "concat chunks = render (pre @ [Open n, Text t, Close n] @ post)"
  shows "streamed_text path (snd (callLLM_streaming chunks)) = t \<and>
         fst (callLLM_streaming chunks) = render (pre @ [Open n, Text t, Close n] @ post) \<and>
         (\<not> occurs (''<'' @ n @ ''>'') (render pre) \<longrightarrow>
            field_regex_match n (fst (callLLM_streaming chunks)) = Some t)"
proof (intro conjI impI)
  let ?st = "stack_after [] pre"
  have "text_at path [] (pre @ [Open n, Text t, Close n] @ post)
      = text_at path [] pre @ text_at path ?st ([Open n, Text t, Close n] @ post)"
    by (rule text_at_append)
  also have "\<dots> = t" using assms(2,3,4) by simp
  finally have "text_at path [] (pre @ [Open n, Text t, Close n] @ post) = t" .
  with streaming_tokens [OF assms(1,5), of path]
  show "streamed_text path (snd (callLLM_streaming chunks)) = t" by simp
next
  show full: "fst (callLLM_streaming chunks) = render (pre @ [Open n, Text t, Close n] @ post)"
    using assms(5) by (simp add: callLLM_streaming_def split: prod.splits)
next
  assume no: "\<not> occurs (''<'' @ n @ ''>'') (render pre)"
  from assms(1) have wn: "CHR ''<'' \<notin> set n" and wt: "CHR ''<'' \<notin> set t" by simp_all
  have full: "fst (callLLM_streaming chunks) = render (pre @ [Open n, Text t, Close n] @ post)"
    using assms(5) by (simp add: callLLM_streaming_def split: prod.splits)
  have r: "render (pre @ [Open n, Text t, Close n] @ post)
      = render pre @ (''<'' @ n @ ''>'') @ (t @ close_tag n @ render post)"
    by (simp add: render_def close_tag_def)
  have o: "split_at (''<'' @ n @ ''>'') (render pre @ (''<'' @ n @ ''>'') @ (t @ close_tag n @ render post))
      = Some (render pre, t @ close_tag n @ render post)"
    by (rule split_at_unique [of _ "CHR ''<''" "n @ ''>''"]) (use wn no in simp_all)
  have "\<not> occurs (close_tag n) t"
    unfolding close_tag_def using not_occurs_without_head [OF wt, of "''/'' @ n @ ''>''"] by simp
  then have c: "split_at (close_tag n) (t @ close_tag n @ render post) = Some (t, render post)"
    by (rule split_at_unique [of _ "CHR ''<''" "''/'' @ n @ ''>''", rotated 2])
       (use wn in \<open>simp_all add: close_tag_def\<close>)
  show "field_regex_match n (fst (callLLM_streaming chunks)) = Some t"
    unfolding full r field_regex_match_def o by (simp add: c)
qed

theorem streaming_leaf_text_witness:
  "list_all wf_token (report_pre @ [Open ''answer'', Text ''hello  world'', Close ''answer''] @ report_post) \<and>
   ''report_answer'' = join ''_'' (stack_after [] report_pre @ [''answer'']) \<and>
   text_at ''report_answer'' [] report_pre = [] \<and>
   text_at ''report_answer'' (stack_after [] report_pre) report_post = [] \<and>
   render (report_pre @ [Open ''answer'', Text ''hello  world'', Close ''answer''] @ report_post)
     = ''<report><answer>hello  world</answer><status>ok</status></report>'' \<and>
   streamed_text ''report_answer''
     (snd (callLLM_streaming (char_by_char ''<report><answer>hello  world</answer><status>ok</status></report>'')))
     = ''hello  world'' \<and>
   field_regex_match ''answer''
     (fst (callLLM_streaming (char_by_char ''<report><answer>hello  world</answer><status>ok</status></report>'')))
     = Some ''hello  world''"
proof -
  let ?doc = "report_pre @ [Open ''answer'', Text ''hello  world'', Close ''answer''] @ report_post"
  have w: "list_all wf_token ?doc" unfolding report_pre_def report_post_def by code_simp
  have p: "''report_answer'' = join ''_'' (stack_after [] report_pre @ [''answer''])"
    unfolding report_pre_def by code_simp
  have a: "text_at ''report_answer'' [] report_pre = []" unfolding report_pre_def by code_simp
  have b: "text_at ''report_answer'' (stack_after [] report_pre) report_post = []"
    unfolding report_pre_def report_post_def by code_simp
  have r: "render ?doc = ''<report><answer>hello  world</answer><status>ok</status></report>''"
    unfolding report_pre_def report_post_def by code_simp
  have c: "concat (char_by_char ''<report><answer>hello  world</answer><status>ok</status></report>'') = render ?doc"
    unfolding r by (rule concat_char_by_char)
  have o: "\<not> occurs (''<'' @ ''answer'' @ ''>'') (render report_pre)"
    unfolding report_pre_def by code_simp
  note t = streaming_leaf_text [OF w p a b c]
  from t have s1: "streamed_text ''report_answer''
     (snd (callLLM_streaming (char_by_char ''<report><answer>hello  world</answer><status>ok</status></report>'')))
     = ''hello  world''"
    by (rule conjunct1)
  from t have imp: "\<not> occurs (''<'' @ ''answer'' @ ''>'') (render report_pre) \<longrightarrow>
     field_regex_match ''answer''
     (fst (callLLM_streaming (char_by_char ''<report><answer>hello  world</answer><status>ok</status></report>'')))
     = Some ''hello  world''"
    by (elim conjE)
  from imp o have s3: "field_regex_match ''answer''
     (fst (callLLM_streaming (char_by_char ''<report><answer>hello  world</answer><status>ok</status></report>'')))
     = Some ''hello  world''"
    by (rule mp)
  from w p a b r s1 s3 show ?thesis by (intro conjI)
qed

section \<open>Properties of the round trip\<close>

subsection \<open>Tag names and the pattern\<close>












subsection \<open>Scalars\<close>


lemma trim_Nil [simp]: "trim [] = []"
  by (simp add: trim_def)










subsection \<open>The shape of the encoding\<close>





declare objToXml.simps [simp del]








subsection \<open>The decoding loop on a run of elements\<close>









subsection \<open>Decoding an encoded value\<close>










lemma roundtrips_under_scalar:
  "\<not> is_object v \<Longrightarrow> roundtrips_under tag v = scalar_ok v"
  by (cases v) simp_all






end
